theory Spec2Isabelle
  imports Main "HOL-Library.Word"
begin

unbundle bit_operations_syntax

text \<open>
  The board extension keeps a board of columns and cards in a JSON document. The
  extension host handles the messages of the webview (\<open>onDidReceiveMessage\<close>): it parses
  the document, runs the branch of the message on the parsed board and writes the board
  back. The webview holds a copy of the board, reorders cards in it by drag and drop
  (\<open>moveCard\<close>) and posts the result. This theory embeds these functions and the
  built-ins they call, and proves what they do to a board.
\<close>

section \<open>Strings and array built-ins\<close>

text \<open>
  A JavaScript string is a sequence of 16-bit code units; \<open>===\<close> on two strings is
  equality of these sequences. \<open>ascii\<close> writes an ASCII literal of the source.
\<close>

type_synonym jsstring = "16 word list"

definition ascii :: "string \<Rightarrow> jsstring" where
  "ascii s = map (\<lambda>c. of_nat (of_char c)) s"

text \<open>\<^verbatim>\<open>Array.prototype.findIndex\<close>: the first index whose element satisfies the
  predicate, \<open>-1\<close> when there is none.\<close>

fun findIndex :: "('a \<Rightarrow> bool) \<Rightarrow> 'a list \<Rightarrow> int" where
  "findIndex P [] = - 1"
| "findIndex P (x # xs) =
     (if P x then 0
      else (let r = findIndex P xs in if r = - 1 then - 1 else r + 1))"

text \<open>\<^verbatim>\<open>Array.prototype.find\<close> returns the first matching element, an object that
  the caller then mutates in place, or \<open>undefined\<close>. The model returns the array slot
  of that object, so that a later write goes to the same object; \<open>None\<close> is
  \<open>undefined\<close>.\<close>

definition find_js :: "('a \<Rightarrow> bool) \<Rightarrow> 'a list \<Rightarrow> nat option" where
  "find_js P xs = (let r = findIndex P xs in if r = - 1 then None else Some (nat r))"

text \<open>\<^verbatim>\<open>Array.prototype.splice(start, deleteCount, ...items)\<close>: a negative start
  counts from the end, both bounds are clamped to the array. The result is the pair of
  the removed elements and the array afterwards.\<close>

definition splice :: "int \<Rightarrow> nat \<Rightarrow> 'a list \<Rightarrow> 'a list \<Rightarrow> 'a list \<times> 'a list" where
  "splice start deleteCount items xs =
     (let len = length xs;
          s = (if start < 0 then nat (max (int len + start) 0) else min (nat start) len);
          d = min deleteCount (len - s)
      in (take d (drop s xs), take s xs @ items @ drop (s + d) xs))"

section \<open>The board\<close>

record card =
  card_id :: jsstring
  card_title :: jsstring

record column =
  column_id :: jsstring
  column_title :: jsstring
  cards :: "card list"

record board =
  columns :: "column list"

section \<open>The webview's \<open>moveCard\<close>\<close>

text \<open>
  \<open>moveCard\<close> mutates the webview's \<open>state\<close>; the model takes the state and returns
  the state afterwards together with how the call ended. Reading \<open>.cards\<close> of
  \<open>undefined\<close> throws a TypeError, and what was mutated before the throw stays mutated.
  \<open>toIndex\<close> is a number or \<open>undefined\<close> (\<open>None\<close>); a comparison with \<open>undefined\<close> is
  false. \<open>card\<close> is the first of the removed elements; there is exactly one, since
  \<open>fromIdx\<close> is an index of the array when it is not \<open>-1\<close>.
\<close>

datatype completion = Returned | TypeError

definition moveCard ::
  "jsstring \<Rightarrow> jsstring \<Rightarrow> jsstring \<Rightarrow> int option \<Rightarrow> board \<Rightarrow> completion \<times> board" where
  "moveCard fromId toId cardId toIndex state =
     (let fromCol = find_js (\<lambda>c. column_id c = fromId) (columns state);
          toCol = find_js (\<lambda>c. column_id c = toId) (columns state)
      in case fromCol of
           None \<Rightarrow> (TypeError, state)
         | Some f \<Rightarrow>
            (let fromIdx = findIndex (\<lambda>c. card_id c = cardId) (cards (columns state ! f))
             in if fromIdx = - 1 then (Returned, state)
                else
                  (let (removed, rest) = splice fromIdx 1 [] (cards (columns state ! f));
                       card = take 1 removed;
                       state1 = state\<lparr>columns :=
                                  (columns state)[f := (columns state ! f)\<lparr>cards := rest\<rparr>]\<rparr>;
                       finalIndex =
                         (if fromId = toId \<and> (case toIndex of None \<Rightarrow> False | Some j \<Rightarrow> fromIdx < j)
                          then (if toIndex \<noteq> None \<and> (case toIndex of None \<Rightarrow> False | Some j \<Rightarrow> j > fromIdx)
                                then map_option (\<lambda>j. j - 1) toIndex
                                else toIndex)
                          else toIndex)
                   in case toCol of
                        None \<Rightarrow> (TypeError, state1)
                      | Some t \<Rightarrow>
                         (let finalIndex' =
                                (case finalIndex of
                                   None \<Rightarrow> int (length (cards (columns state1 ! t)))
                                 | Some j \<Rightarrow> j)
                          in (Returned,
                              state1\<lparr>columns :=
                                (columns state1)[t := (columns state1 ! t)
                                  \<lparr>cards := snd (splice finalIndex' 0 card
                                                  (cards (columns state1 ! t)))\<rparr>]\<rparr>)))))"

section \<open>The extension host's message handler: the branches\<close>

text \<open>The messages of the webview, by their \<open>type\<close> field; \<open>Other\<close> is any type the
  handler has no branch for.\<close>

datatype message =
    Update board
  | DeleteColumn jsstring
  | RenameColumn jsstring jsstring
  | AddColumn
  | AddCard jsstring
  | DeleteCard jsstring jsstring
  | MoveColumn jsstring jsstring
  | Other

text \<open>
  What the host answers during one run of the handler: \<open>input\<close> is what
  \<^verbatim>\<open>showInputBox\<close> resolves to (\<open>None\<close> is \<open>undefined\<close>, the prompt was cancelled), \<open>now\<close> is
  \<^verbatim>\<open>Date.now()\<close> in milliseconds, and \<open>toLowerCase\<close> is the built-in Unicode case mapping
  of strings, which the model takes as it comes.
\<close>

record host =
  input :: "jsstring option"
  now :: nat
  toLowerCase :: "jsstring \<Rightarrow> jsstring"

text \<open>A non-negative integer converted to a string, as \<open>'-' + Date.now()\<close> does.\<close>

fun toString :: "nat \<Rightarrow> jsstring" where
  "toString n =
     (if n < 10 then [of_nat (48 + n)] else toString (n div 10) @ [of_nat (48 + n mod 10)])"

declare toString.simps [simp del]

text \<open>\<^verbatim>\<open>.replace(/[^a-z0-9]/g, '-')\<close>: every code unit outside \<open>a-z\<close> and \<open>0-9\<close> becomes
  a hyphen.\<close>

definition replace_non_alnum :: "jsstring \<Rightarrow> jsstring" where
  "replace_non_alnum s =
     map (\<lambda>c. if (0x61 \<le> c \<and> c \<le> 0x7A) \<or> (0x30 \<le> c \<and> c \<le> 0x39) then c else 0x2D) s"

text \<open>
  The chain of branches on \<open>msg.type\<close>, run on the parsed document \<open>data\<close>. The result is
  \<open>data\<close> afterwards, the \<open>dirty\<close> flag, and whether the branch called \<open>sendData()\<close>.
  A string is truthy when it is not empty.
\<close>

definition dispatch :: "host \<Rightarrow> message \<Rightarrow> board \<Rightarrow> board \<times> bool \<times> bool" where
  "dispatch h msg data =
     (case msg of
        Update d \<Rightarrow> (d, True, False)
      | DeleteColumn columnId \<Rightarrow>
          (let index = findIndex (\<lambda>c. column_id c = columnId) (columns data)
           in if index \<noteq> - 1
              then (data\<lparr>columns := snd (splice index 1 [] (columns data))\<rparr>, True, False)
              else (data, False, False))
      | RenameColumn columnId newTitle \<Rightarrow>
          (case find_js (\<lambda>c. column_id c = columnId) (columns data) of
             Some col \<Rightarrow>
               (data\<lparr>columns := (columns data)[col := (columns data ! col)\<lparr>column_title := newTitle\<rparr>]\<rparr>,
                True, False)
           | None \<Rightarrow> (data, False, False))
      | AddColumn \<Rightarrow>
          (case input h of
             Some title \<Rightarrow>
               if title \<noteq> []
               then (let id = replace_non_alnum (toLowerCase h title) @ ascii ''-'' @ toString (now h)
                     in (data\<lparr>columns := columns data @
                                 [\<lparr>column_id = id, column_title = title, cards = []\<rparr>]\<rparr>,
                         True, True))
               else (data, False, False)
           | None \<Rightarrow> (data, False, False))
      | AddCard columnId \<Rightarrow>
          (case input h of
             Some title \<Rightarrow>
               if title \<noteq> []
               then (case find_js (\<lambda>c. column_id c = columnId) (columns data) of
                       Some col \<Rightarrow>
                         (let cardId = ascii ''card-'' @ toString (now h)
                          in (data\<lparr>columns := (columns data)[col := (columns data ! col)
                                 \<lparr>cards := cards (columns data ! col) @
                                            [\<lparr>card_id = cardId, card_title = title\<rparr>]\<rparr>]\<rparr>,
                              True, True))
                     | None \<Rightarrow> (data, False, False))
               else (data, False, False)
           | None \<Rightarrow> (data, False, False))
      | DeleteCard columnId cardId \<Rightarrow>
          (case find_js (\<lambda>c. column_id c = columnId) (columns data) of
             Some col \<Rightarrow>
               (let idx = findIndex (\<lambda>c. card_id c = cardId) (cards (columns data ! col))
                in if idx \<noteq> - 1
                   then (data\<lparr>columns := (columns data)[col := (columns data ! col)
                            \<lparr>cards := snd (splice idx 1 [] (cards (columns data ! col)))\<rparr>]\<rparr>,
                         True, False)
                   else (data, False, False))
           | None \<Rightarrow> (data, False, False))
      | MoveColumn fromId toId \<Rightarrow>
          (let fromIndex = findIndex (\<lambda>c. column_id c = fromId) (columns data);
               toIndex = findIndex (\<lambda>c. column_id c = toId) (columns data)
           in if fromIndex \<noteq> - 1 \<and> toIndex \<noteq> - 1 \<and> fromIndex \<noteq> toIndex
              then (let (removed, rest) = splice fromIndex 1 [] (columns data);
                        col = take 1 removed
                    in (data\<lparr>columns := snd (splice toIndex 0 col rest)\<rparr>, True, False))
              else (data, False, False))
      | Other \<Rightarrow> (data, False, False))"

section \<open>The webview's column title editor\<close>

text \<open>\<^verbatim>\<open>String.prototype.trim\<close> strips the white space and line terminator code points
  from both ends.\<close>

definition is_js_whitespace :: "16 word \<Rightarrow> bool" where
  "is_js_whitespace c =
     (c \<in> set [0x9, 0xA, 0xB, 0xC, 0xD, 0x20, 0xA0, 0x1680, 0x2028, 0x2029, 0x202F, 0x205F,
                0x3000, 0xFEFF]
      \<or> (0x2000 \<le> c \<and> c \<le> 0x200A))"

definition trim :: "jsstring \<Rightarrow> jsstring" where
  "trim s = rev (dropWhile is_js_whitespace (rev (dropWhile is_js_whitespace s)))"

text \<open>
  \<open>saveRename\<close> runs when the title element of column \<open>col\<close> loses focus with the text
  \<open>textContent\<close>. The result is the message posted to the host, if any, and the text of
  the element afterwards.
\<close>

definition saveRename :: "column \<Rightarrow> jsstring \<Rightarrow> message option \<times> jsstring" where
  "saveRename col textContent =
     (let newTitle = trim textContent
      in if newTitle \<noteq> [] \<and> newTitle \<noteq> column_title col
         then (Some (RenameColumn (column_id col) newTitle), textContent)
         else (None, column_title col))"

section \<open>JSON text\<close>

text \<open>
  The values \<^verbatim>\<open>JSON.parse\<close> builds, as the text spells them: an object is the list
  of its members in the order of the text, a number is kept as its lexeme.
\<close>

datatype json =
    JNull
  | JBool bool
  | JNumber jsstring
  | JString jsstring
  | JArray "json list"
  | JObject "(jsstring \<times> json) list"

datatype token =
    LBrace | RBrace | LBracket | RBracket | Colon | Comma
  | TString jsstring | TNumber jsstring | TTrue | TFalse | TNull

subsection \<open>Strings\<close>

definition hex_value :: "16 word \<Rightarrow> nat option" where
  "hex_value c =
     (if 0x30 \<le> c \<and> c \<le> 0x39 then Some (unat c - 48)
      else if 0x61 \<le> c \<and> c \<le> 0x66 then Some (unat c - 87)
      else if 0x41 \<le> c \<and> c \<le> 0x46 then Some (unat c - 55)
      else None)"

text \<open>The four hexadecimal digits of a \<open>\u\<close> escape.\<close>

definition hex4 :: "jsstring \<Rightarrow> 16 word option" where
  "hex4 ds =
     (case map hex_value ds of
        [Some a, Some b, Some c, Some d] \<Rightarrow> Some (of_nat (((a * 16 + b) * 16 + c) * 16 + d))
      | _ \<Rightarrow> None)"

text \<open>The single-character escapes: \<open>\" \\ \/ \b \f \n \r \t\<close>.\<close>

definition escape_value :: "16 word \<Rightarrow> 16 word option" where
  "escape_value e =
     (if e = 0x22 then Some 0x22
      else if e = 0x5C then Some 0x5C
      else if e = 0x2F then Some 0x2F
      else if e = 0x62 then Some 0x08
      else if e = 0x66 then Some 0x0C
      else if e = 0x6E then Some 0x0A
      else if e = 0x72 then Some 0x0D
      else if e = 0x74 then Some 0x09
      else None)"

text \<open>The characters of a string after its opening quote, up to the closing quote:
  the string's value and the text after it. A control character below U+0020 must be
  escaped.\<close>

fun lex_string :: "jsstring \<Rightarrow> jsstring \<Rightarrow> (jsstring \<times> jsstring) option" where
  "lex_string acc [] = None"
| "lex_string acc (c # cs) =
     (if c = 0x22 then Some (rev acc, cs)
      else if c = 0x5C then
        (case cs of
           [] \<Rightarrow> None
         | e # es \<Rightarrow>
             if e = 0x75 then
               (if length es < 4 then None
                else (case hex4 (take 4 es) of
                        None \<Rightarrow> None
                      | Some v \<Rightarrow> lex_string (v # acc) (drop 4 es)))
             else (case escape_value e of
                     None \<Rightarrow> None
                   | Some v \<Rightarrow> lex_string (v # acc) es))
      else if c < 0x20 then None
      else lex_string (c # acc) cs)"

subsection \<open>Numbers\<close>

definition is_digit :: "16 word \<Rightarrow> bool" where
  "is_digit c = (0x30 \<le> c \<and> c \<le> 0x39)"

text \<open>An optional leading character, and a run of digits: what is consumed, and the
  rest.\<close>

definition opt_char :: "(16 word \<Rightarrow> bool) \<Rightarrow> jsstring \<Rightarrow> jsstring \<times> jsstring" where
  "opt_char P cs = (case cs of c # r \<Rightarrow> if P c then ([c], r) else ([], cs) | [] \<Rightarrow> ([], cs))"

definition digits :: "jsstring \<Rightarrow> jsstring \<times> jsstring" where
  "digits cs = (takeWhile is_digit cs, dropWhile is_digit cs)"

text \<open>\<open>-? (0 | [1-9][0-9]*) (. [0-9]+)? ([eE] [+-]? [0-9]+)?\<close>: the lexeme and the
  rest.\<close>

definition lex_number :: "jsstring \<Rightarrow> (jsstring \<times> jsstring) option" where
  "lex_number cs =
     (let (sign, r0) = opt_char (\<lambda>c. c = 0x2D) cs;
          (d, r1) = opt_char is_digit r0
      in if d = [] then None
         else
           (let (ip, r2) = (if d = [0x30] then ([], r1) else digits r1);
                (dot, r3) = opt_char (\<lambda>c. c = 0x2E) r2;
                (fp, r4) = (if dot = [] then ([], r3) else digits r3)
            in if dot \<noteq> [] \<and> fp = [] then None
               else
                 (let (e, r5) = opt_char (\<lambda>c. c = 0x65 \<or> c = 0x45) r4;
                      (sg, r6) = (if e = [] then ([], r5)
                                  else opt_char (\<lambda>c. c = 0x2B \<or> c = 0x2D) r5);
                      (ep, r7) = (if e = [] then ([], r6) else digits r6)
                  in if e \<noteq> [] \<and> ep = [] then None
                     else Some (sign @ d @ ip @ dot @ fp @ e @ sg @ ep, r7))))"

subsection \<open>Tokens\<close>

lemma lex_string_shorter: "lex_string acc cs = Some (s, r) \<Longrightarrow> length r < length cs"
proof (induction acc cs arbitrary: s r rule: lex_string.induct)
  case (1 acc)
  then show ?case by simp
next
  case (2 acc c cs)
  show ?case
  proof (cases "c = 0x22")
    case True
    with "2.prems" show ?thesis by simp
  next
    case q: False
    show ?thesis
    proof (cases "c = 0x5C")
      case True
      with q "2.prems" obtain e es where cs: "cs = e # es"
        by (cases cs) auto
      show ?thesis
      proof (cases "e = 0x75")
        case u: True
        with True q cs "2.prems" obtain v where
          v: "\<not> length es < 4" "hex4 (take 4 es) = Some v" "lex_string (v # acc) (drop 4 es) = Some (s, r)"
          by (auto split: if_splits option.splits)
        from "2.IH"(1)[OF q True cs u v(1) v(2) v(3)] cs show ?thesis by simp
      next
        case u: False
        with True q cs "2.prems" obtain v where
          v: "escape_value e = Some v" "lex_string (v # acc) es = Some (s, r)"
          by (auto split: option.splits)
        from "2.IH"(2)[OF q True cs u v(1) v(2)] cs show ?thesis by simp
      qed
    next
      case False
      with q "2.prems" have a: "\<not> c < 0x20" "lex_string (c # acc) cs = Some (s, r)"
        by (auto split: if_splits)
      from "2.IH"(3)[OF q False a(1) a(2)] show ?thesis by simp
    qed
  qed
qed

lemma opt_char_id: "opt_char P cs = (a, r) \<Longrightarrow> cs = a @ r"
  by (auto simp: opt_char_def split: list.splits if_splits)

lemma digits_id: "digits cs = (a, r) \<Longrightarrow> cs = a @ r"
  by (auto simp: digits_def)

lemma lex_number_id: "lex_number cs = Some (l, r) \<Longrightarrow> cs = l @ r \<and> l \<noteq> []"
  unfolding lex_number_def Let_def
  by (auto split: prod.splits if_splits dest!: opt_char_id digits_id)

lemma lex_number_shorter: "lex_number cs = Some (l, r) \<Longrightarrow> length r < length cs"
  by (drule lex_number_id) auto

text \<open>The tokens of a text; white space between tokens is tab, line feed, carriage
  return and space. \<open>None\<close> is a SyntaxError.\<close>

function lex :: "jsstring \<Rightarrow> token list option" where
  "lex [] = Some []"
| "lex (c # cs) =
     (if c = 0x20 \<or> c = 0x09 \<or> c = 0x0A \<or> c = 0x0D then lex cs
      else if c = 0x7B then map_option ((#) LBrace) (lex cs)
      else if c = 0x7D then map_option ((#) RBrace) (lex cs)
      else if c = 0x5B then map_option ((#) LBracket) (lex cs)
      else if c = 0x5D then map_option ((#) RBracket) (lex cs)
      else if c = 0x3A then map_option ((#) Colon) (lex cs)
      else if c = 0x2C then map_option ((#) Comma) (lex cs)
      else if c = 0x22 then
        (case lex_string [] cs of
           None \<Rightarrow> None
         | Some (s, r) \<Rightarrow> map_option ((#) (TString s)) (lex r))
      else if c = 0x74 then
        (if take 3 cs = ascii ''rue'' then map_option ((#) TTrue) (lex (drop 3 cs)) else None)
      else if c = 0x66 then
        (if take 4 cs = ascii ''alse'' then map_option ((#) TFalse) (lex (drop 4 cs)) else None)
      else if c = 0x6E then
        (if take 3 cs = ascii ''ull'' then map_option ((#) TNull) (lex (drop 3 cs)) else None)
      else if c = 0x2D \<or> is_digit c then
        (case lex_number (c # cs) of
           None \<Rightarrow> None
         | Some (l, r) \<Rightarrow> map_option ((#) (TNumber l)) (lex r))
      else None)"
  by pat_completeness auto
termination
  by (relation "measure length") (auto dest: lex_string_shorter lex_number_shorter)

subsection \<open>Values\<close>

text \<open>
  The grammar, read token by token. The stack holds the arrays and objects that are
  open, with their elements or members so far (latest first) and, for an object, the
  key whose value is awaited; \<open>expect\<close> says what may come next.
\<close>

datatype frame = ArrF "json list" | ObjF "(jsstring \<times> json) list" "jsstring option"

datatype expect = Value | ValueOrClose | KeyOrClose | Key | ColonE | CommaOrClose | Finished json

fun close_value :: "json \<Rightarrow> frame list \<Rightarrow> (frame list \<times> expect) option" where
  "close_value v [] = Some ([], Finished v)"
| "close_value v (ArrF es # st) = Some (ArrF (v # es) # st, CommaOrClose)"
| "close_value v (ObjF ms (Some k) # st) = Some (ObjF ((k, v) # ms) None # st, CommaOrClose)"
| "close_value v (ObjF ms None # st) = None"

definition start_value :: "token \<Rightarrow> frame list \<Rightarrow> (frame list \<times> expect) option" where
  "start_value t st =
     (case t of
        TString s \<Rightarrow> close_value (JString s) st
      | TNumber l \<Rightarrow> close_value (JNumber l) st
      | TTrue \<Rightarrow> close_value (JBool True) st
      | TFalse \<Rightarrow> close_value (JBool False) st
      | TNull \<Rightarrow> close_value JNull st
      | LBracket \<Rightarrow> Some (ArrF [] # st, ValueOrClose)
      | LBrace \<Rightarrow> Some (ObjF [] None # st, KeyOrClose)
      | _ \<Rightarrow> None)"

definition close_array :: "frame list \<Rightarrow> (frame list \<times> expect) option" where
  "close_array st = (case st of ArrF es # st' \<Rightarrow> close_value (JArray (rev es)) st' | _ \<Rightarrow> None)"

definition close_object :: "frame list \<Rightarrow> (frame list \<times> expect) option" where
  "close_object st =
     (case st of ObjF ms None # st' \<Rightarrow> close_value (JObject (rev ms)) st' | _ \<Rightarrow> None)"

definition take_key :: "jsstring \<Rightarrow> frame list \<Rightarrow> (frame list \<times> expect) option" where
  "take_key k st =
     (case st of ObjF ms None # st' \<Rightarrow> Some (ObjF ms (Some k) # st', ColonE) | _ \<Rightarrow> None)"

fun step :: "frame list \<Rightarrow> expect \<Rightarrow> token \<Rightarrow> (frame list \<times> expect) option" where
  "step st Value t = start_value t st"
| "step st ValueOrClose t = (if t = RBracket then close_array st else start_value t st)"
| "step st KeyOrClose t =
     (case t of TString k \<Rightarrow> take_key k st | RBrace \<Rightarrow> close_object st | _ \<Rightarrow> None)"
| "step st Key t = (case t of TString k \<Rightarrow> take_key k st | _ \<Rightarrow> None)"
| "step st ColonE t = (if t = Colon then Some (st, Value) else None)"
| "step st CommaOrClose t =
     (case t of
        Comma \<Rightarrow> (case st of
                    ArrF es # st' \<Rightarrow> Some (st, Value)
                  | ObjF ms k # st' \<Rightarrow> Some (st, Key)
                  | [] \<Rightarrow> None)
      | RBracket \<Rightarrow> close_array st
      | RBrace \<Rightarrow> close_object st
      | _ \<Rightarrow> None)"
| "step st (Finished v) t = None"

fun run :: "frame list \<Rightarrow> expect \<Rightarrow> token list \<Rightarrow> json option" where
  "run st e [] = (case e of Finished v \<Rightarrow> Some v | _ \<Rightarrow> None)"
| "run st e (t # ts) = (case step st e t of None \<Rightarrow> None | Some (st', e') \<Rightarrow> run st' e' ts)"

text \<open>\<^verbatim>\<open>JSON.parse(text)\<close>; \<open>None\<close> is the SyntaxError it throws.\<close>

definition JSON_parse :: "jsstring \<Rightarrow> json option" where
  "JSON_parse text = (case lex text of None \<Rightarrow> None | Some ts \<Rightarrow> run [] Value ts)"

subsection \<open>\<^verbatim>\<open>JSON.stringify(data, null, 2)\<close>\<close>

definition hex_digit :: "nat \<Rightarrow> 16 word" where
  "hex_digit d = (if d < 10 then of_nat (48 + d) else of_nat (87 + d))"

text \<open>\<open>\uXXXX\<close> with four lower-case hexadecimal digits.\<close>

definition UnicodeEscape :: "16 word \<Rightarrow> jsstring" where
  "UnicodeEscape c =
     [0x5C, 0x75, hex_digit (unat c div 4096 mod 16), hex_digit (unat c div 256 mod 16),
      hex_digit (unat c div 16 mod 16), hex_digit (unat c mod 16)]"

definition is_leading_surrogate :: "16 word \<Rightarrow> bool" where
  "is_leading_surrogate c = (0xD800 \<le> c \<and> c \<le> 0xDBFF)"

definition is_trailing_surrogate :: "16 word \<Rightarrow> bool" where
  "is_trailing_surrogate c = (0xDC00 \<le> c \<and> c \<le> 0xDFFF)"

text \<open>
  The body of \<open>QuoteJSONString\<close>, code point by code point: the short escapes, \<open>\u\<close>
  escapes for the other control characters and for a surrogate that is not part of a
  pair, everything else as it is.
\<close>

fun quote_units :: "jsstring \<Rightarrow> jsstring" where
  "quote_units [] = []"
| "quote_units (c # cs) =
     (if c = 0x08 then [0x5C, 0x62] @ quote_units cs
      else if c = 0x09 then [0x5C, 0x74] @ quote_units cs
      else if c = 0x0A then [0x5C, 0x6E] @ quote_units cs
      else if c = 0x0C then [0x5C, 0x66] @ quote_units cs
      else if c = 0x0D then [0x5C, 0x72] @ quote_units cs
      else if c = 0x22 then [0x5C, 0x22] @ quote_units cs
      else if c = 0x5C then [0x5C, 0x5C] @ quote_units cs
      else if c < 0x20 then UnicodeEscape c @ quote_units cs
      else if is_leading_surrogate c then
        (case cs of
           [] \<Rightarrow> UnicodeEscape c
         | d # ds \<Rightarrow>
             if is_trailing_surrogate d then c # d # quote_units ds
             else UnicodeEscape c @ quote_units cs)
      else if is_trailing_surrogate c then UnicodeEscape c @ quote_units cs
      else c # quote_units cs)"

definition QuoteJSONString :: "jsstring \<Rightarrow> jsstring" where
  "QuoteJSONString s = 0x22 # quote_units s @ [0x22]"

text \<open>A line feed and the indentation of a nesting level, two spaces a level.\<close>

definition newline_indent :: "nat \<Rightarrow> jsstring" where
  "newline_indent n = 0x0A # replicate (2 * n) 0x20"

fun join :: "jsstring \<Rightarrow> jsstring list \<Rightarrow> jsstring" where
  "join sep [] = []"
| "join sep [x] = x"
| "join sep (x # y # ys) = x @ sep @ join sep (y # ys)"

text \<open>\<open>SerializeJSONArray\<close> and \<open>SerializeJSONObject\<close> at nesting level \<open>stepback\<close>, given
  the serialized elements and the serialized values of the members.\<close>

definition SerializeJSONArray :: "nat \<Rightarrow> jsstring list \<Rightarrow> jsstring" where
  "SerializeJSONArray stepback partial =
     (if partial = [] then ascii ''[]''
      else ascii ''['' @ newline_indent (stepback + 1) @
           join (ascii '','' @ newline_indent (stepback + 1)) partial @
           newline_indent stepback @ ascii '']'')"

definition SerializeJSONObject :: "nat \<Rightarrow> (jsstring \<times> jsstring) list \<Rightarrow> jsstring" where
  "SerializeJSONObject stepback members =
     (if members = [] then ascii ''{}''
      else ascii ''{'' @ newline_indent (stepback + 1) @
           join (ascii '','' @ newline_indent (stepback + 1))
             (map (\<lambda>(k, v). QuoteJSONString k @ ascii '': '' @ v) members) @
           newline_indent stepback @ ascii ''}'')"

text \<open>A board's objects have their keys in the order in which the code creates them.\<close>

definition stringify_card :: "nat \<Rightarrow> card \<Rightarrow> jsstring" where
  "stringify_card lvl c =
     SerializeJSONObject lvl
       [(ascii ''id'', QuoteJSONString (card_id c)),
        (ascii ''title'', QuoteJSONString (card_title c))]"

definition stringify_column :: "nat \<Rightarrow> column \<Rightarrow> jsstring" where
  "stringify_column lvl c =
     SerializeJSONObject lvl
       [(ascii ''id'', QuoteJSONString (column_id c)),
        (ascii ''title'', QuoteJSONString (column_title c)),
        (ascii ''cards'', SerializeJSONArray (lvl + 1) (map (stringify_card (lvl + 2)) (cards c)))]"

definition JSON_stringify :: "board \<Rightarrow> jsstring" where
  "JSON_stringify data =
     SerializeJSONObject 0
       [(ascii ''columns'', SerializeJSONArray 1 (map (stringify_column 2) (columns data)))]"

subsection \<open>Boards among the JSON values\<close>

text \<open>
  A parsed value is read as a board when it has exactly the shape of the document
  format, every object with just the keys above, once each and in that order: the shape
  of every document the extension itself writes. The code reads the properties by name,
  so it also acts on a document whose objects have the keys in another order, keys
  besides these, or a key twice; such documents are not read as boards here and are
  outside this model.
\<close>

fun card_of_json :: "json \<Rightarrow> card option" where
  "card_of_json (JObject [(k1, JString i), (k2, JString t)]) =
     (if k1 = ascii ''id'' \<and> k2 = ascii ''title'' then Some \<lparr>card_id = i, card_title = t\<rparr>
      else None)"
| "card_of_json _ = None"

fun column_of_json :: "json \<Rightarrow> column option" where
  "column_of_json (JObject [(k1, JString i), (k2, JString t), (k3, JArray cs)]) =
     (if k1 = ascii ''id'' \<and> k2 = ascii ''title'' \<and> k3 = ascii ''cards''
      then (case those (map card_of_json cs) of
              None \<Rightarrow> None
            | Some cds \<Rightarrow> Some \<lparr>column_id = i, column_title = t, cards = cds\<rparr>)
      else None)"
| "column_of_json _ = None"

fun board_of_json :: "json \<Rightarrow> board option" where
  "board_of_json (JObject [(k, JArray cs)]) =
     (if k = ascii ''columns''
      then (case those (map column_of_json cs) of
              None \<Rightarrow> None
            | Some cols \<Rightarrow> Some \<lparr>columns = cols\<rparr>)
      else None)"
| "board_of_json _ = None"

section \<open>The extension host's message handler\<close>

text \<open>
  How a run of the handler ends. \<open>ParseError\<close>: the document text is not JSON, the
  handler returns at once. \<open>Completed edit refresh\<close>: the branches ran; \<open>edit\<close> is the
  \<^verbatim>\<open>WorkspaceEdit.replace\<close> that is applied and saved when \<open>dirty\<close> is set, as the end
  of the replaced range (from offset 0) and the new text; \<open>refresh\<close> tells whether the
  branch called \<open>sendData()\<close>. \<open>NotABoard\<close>: the text is JSON but is not read as a board
  (see \<open>board_of_json\<close>); what the branches do with such a value is outside this model.
\<close>

datatype outcome = ParseError | NotABoard | Completed "(nat \<times> jsstring) option" bool

definition onDidReceiveMessage :: "host \<Rightarrow> message \<Rightarrow> jsstring \<Rightarrow> outcome" where
  "onDidReceiveMessage h msg currentText =
     (case JSON_parse currentText of
        None \<Rightarrow> ParseError
      | Some v \<Rightarrow>
          (case (case msg of Update d \<Rightarrow> Some d | _ \<Rightarrow> board_of_json v) of
             None \<Rightarrow> NotABoard
           | Some data \<Rightarrow>
               (let (data', dirty, refresh) = dispatch h msg data
                in Completed
                     (if dirty then Some (length currentText, JSON_stringify data') else None)
                     refresh)))"

text \<open>
  The edit replaces the range from \<open>positionAt(0)\<close> to \<open>positionAt(currentText.length)\<close>
  of the document as it is when the edit is built; \<open>positionAt\<close> clamps an offset beyond
  the end. For the two messages that wait for the prompt, that document is the one at
  the time the prompt resolves, while \<open>currentText\<close> was read when the message arrived.
\<close>

definition applyEdit :: "nat \<times> jsstring \<Rightarrow> jsstring \<Rightarrow> jsstring" where
  "applyEdit e document = snd e @ drop (fst e) document"

text \<open>The edit of a run, if it makes one, and the document after the run.\<close>

definition edit_of :: "outcome \<Rightarrow> (nat \<times> jsstring) option" where
  "edit_of out = (case out of Completed e refresh \<Rightarrow> e | _ \<Rightarrow> None)"

definition document_after :: "outcome \<Rightarrow> jsstring \<Rightarrow> jsstring" where
  "document_after out document =
     (case edit_of out of Some e \<Rightarrow> applyEdit e document | None \<Rightarrow> document)"

text \<open>
  \<open>sendData\<close> posts the parsed document to the webview, whose listener stores it in
  \<open>state\<close>; a SyntaxError is caught and nothing is posted. The model gives the webview's
  \<open>state\<close> afterwards (\<open>None\<close> is the initial \<open>null\<close>).
\<close>

definition sendData :: "jsstring \<Rightarrow> json option \<Rightarrow> json option" where
  "sendData text state = (case JSON_parse text of None \<Rightarrow> state | Some v \<Rightarrow> Some v)"

section \<open>Vocabulary of the properties\<close>

definition removeAt :: "nat \<Rightarrow> 'a list \<Rightarrow> 'a list" where
  "removeAt i xs = take i xs @ drop (Suc i) xs"

definition insertAt :: "nat \<Rightarrow> 'a \<Rightarrow> 'a list \<Rightarrow> 'a list" where
  "insertAt k x xs = take k xs @ x # drop k xs"

text \<open>An element sits at an index of a sequence only if the index is in range.\<close>

definition at_index :: "'a list \<Rightarrow> nat \<Rightarrow> 'a \<Rightarrow> bool" where
  "at_index xs k x = (k < length xs \<and> xs ! k = x)"

definition total_cards :: "board \<Rightarrow> nat" where
  "total_cards b = sum_list (map (\<lambda>c. length (cards c)) (columns b))"

text \<open>The slot at which \<open>splice\<close> inserts for a requested index and a given length.\<close>

definition clamp_index :: "int \<Rightarrow> nat \<Rightarrow> nat" where
  "clamp_index j len = (if j < 0 then nat (max (int len + j) 0) else min (nat j) len)"

text \<open>The board of the specification's scenarios.\<close>

definition card_c1 :: card where
  "card_c1 = \<lparr>card_id = ascii ''c1'', card_title = ascii ''X''\<rparr>"

definition card_c2 :: card where
  "card_c2 = \<lparr>card_id = ascii ''c2'', card_title = ascii ''Y''\<rparr>"

definition scenario_board :: board where
  "scenario_board =
     \<lparr>columns =
        [\<lparr>column_id = ascii ''a'', column_title = ascii ''A'', cards = [card_c1, card_c2]\<rparr>,
         \<lparr>column_id = ascii ''b'', column_title = ascii ''B'', cards = []\<rparr>]\<rparr>"

text \<open>A board of three columns, each with more than one card.\<close>

definition card_c3 :: card where
  "card_c3 = \<lparr>card_id = ascii ''c3'', card_title = ascii ''Z''\<rparr>"

definition card_c4 :: card where
  "card_c4 = \<lparr>card_id = ascii ''c4'', card_title = ascii ''U''\<rparr>"

definition card_c5 :: card where
  "card_c5 = \<lparr>card_id = ascii ''c5'', card_title = ascii ''V''\<rparr>"

definition card_c6 :: card where
  "card_c6 = \<lparr>card_id = ascii ''c6'', card_title = ascii ''W''\<rparr>"

definition card_c7 :: card where
  "card_c7 = \<lparr>card_id = ascii ''c7'', card_title = ascii ''T''\<rparr>"

definition wide_board :: board where
  "wide_board =
     \<lparr>columns =
        [\<lparr>column_id = ascii ''a'', column_title = ascii ''A'',
          cards = [card_c1, card_c2, card_c3]\<rparr>,
         \<lparr>column_id = ascii ''b'', column_title = ascii ''B'', cards = [card_c4, card_c5]\<rparr>,
         \<lparr>column_id = ascii ''c'', column_title = ascii ''C'', cards = [card_c6, card_c7]\<rparr>]\<rparr>"

text \<open>A host for the examples: the prompt answers \<open>Fix\<close>, the clock reads 5, and
  \<open>toLowerCase\<close> lowers the ASCII capitals, as the built-in does on ASCII strings.\<close>

definition ascii_lower :: "jsstring \<Rightarrow> jsstring" where
  "ascii_lower s = map (\<lambda>c. if 0x41 \<le> c \<and> c \<le> 0x5A then c + 0x20 else c) s"

definition example_host :: host where
  "example_host = \<lparr>input = Some (ascii ''Fix''), now = 5, toLowerCase = ascii_lower\<rparr>"

text \<open>The JSON value of a board.\<close>

definition json_of_card :: "card \<Rightarrow> json" where
  "json_of_card c =
     JObject [(ascii ''id'', JString (card_id c)), (ascii ''title'', JString (card_title c))]"

definition json_of_column :: "column \<Rightarrow> json" where
  "json_of_column c =
     JObject [(ascii ''id'', JString (column_id c)), (ascii ''title'', JString (column_title c)),
              (ascii ''cards'', JArray (map json_of_card (cards c)))]"

definition json_of_board :: "board \<Rightarrow> json" where
  "json_of_board b = JObject [(ascii ''columns'', JArray (map json_of_column (columns b)))]"

text \<open>The tokens that spell a value.\<close>

fun commas :: "token list list \<Rightarrow> token list" where
  "commas [] = []"
| "commas [x] = x"
| "commas (x # y # ys) = x @ Comma # commas (y # ys)"

fun toks :: "json \<Rightarrow> token list" where
  "toks JNull = [TNull]"
| "toks (JBool b) = [if b then TTrue else TFalse]"
| "toks (JNumber l) = [TNumber l]"
| "toks (JString s) = [TString s]"
| "toks (JArray vs) = LBracket # commas (map toks vs) @ [RBracket]"
| "toks (JObject ms) = LBrace # commas (map (\<lambda>(k, v). TString k # Colon # toks v) ms) @ [RBrace]"

text \<open>A text is lexed as a list of tokens, whatever follows it.\<close>

definition lexes_as :: "jsstring \<Rightarrow> token list \<Rightarrow> bool" where
  "lexes_as text ts =
     (\<forall>r. lex (text @ r) = (case lex r of None \<Rightarrow> None | Some us \<Rightarrow> Some (ts @ us)))"

text \<open>Parsing goes on after a complete value.\<close>

definition after_value :: "json \<Rightarrow> frame list \<Rightarrow> token list \<Rightarrow> json option" where
  "after_value v st ts =
     (case close_value v st of None \<Rightarrow> None | Some (st', e') \<Rightarrow> run st' e' ts)"

text \<open>The scenario board with column \<open>a\<close> renamed to \<open>Z\<close>, and the column that
  \<open>add-column\<close> creates under the example host.\<close>

definition renamed_board :: board where
  "renamed_board =
     \<lparr>columns =
        [\<lparr>column_id = ascii ''a'', column_title = ascii ''Z'', cards = [card_c1, card_c2]\<rparr>,
         \<lparr>column_id = ascii ''b'', column_title = ascii ''B'', cards = []\<rparr>]\<rparr>"

definition fix_column :: column where
  "fix_column = \<lparr>column_id = ascii ''fix-5'', column_title = ascii ''Fix'', cards = []\<rparr>"

section \<open>Array built-ins: basic facts\<close>

lemma findIndex_range: "findIndex P xs = - 1 \<or> (0 \<le> findIndex P xs \<and> findIndex P xs < int (length xs))"
  by (induction xs) (auto simp: Let_def)

lemma findIndex_found:
  "findIndex P xs = int i \<Longrightarrow> i < length xs \<and> P (xs ! i) \<and> (\<forall>k<i. \<not> P (xs ! k))"
proof (induction xs arbitrary: i)
  case Nil
  then show ?case by simp
next
  case (Cons x xs)
  show ?case
  proof (cases "P x")
    case True
    with Cons.prems show ?thesis by simp
  next
    case False
    with Cons.prems have r: "findIndex P xs \<noteq> - 1" and e: "findIndex P xs + 1 = int i"
      by (auto simp: Let_def split: if_splits)
    from findIndex_range[of P xs] r have "0 \<le> findIndex P xs" by auto
    with e obtain m where m: "i = Suc m" "findIndex P xs = int m"
      by (cases i) auto
    from Cons.IH[OF m(2)] False m(1) show ?thesis
      by (auto simp: nth_Cons split: nat.splits)
  qed
qed

lemma find_js_Some:
  "find_js P xs = Some f \<Longrightarrow> f < length xs \<and> P (xs ! f) \<and> findIndex P xs = int f"
proof -
  assume a: "find_js P xs = Some f"
  then have r: "findIndex P xs \<noteq> - 1" and f: "f = nat (findIndex P xs)"
    by (auto simp: find_js_def Let_def split: if_splits)
  from findIndex_range[of P xs] r have "0 \<le> findIndex P xs" by auto
  with f have "findIndex P xs = int f" by simp
  with findIndex_found[of P xs f] show ?thesis by simp
qed

lemma find_js_None: "find_js P xs = None \<Longrightarrow> findIndex P xs = - 1"
  by (auto simp: find_js_def Let_def split: if_splits)

lemma splice_remove_one:
  "i < length xs \<Longrightarrow> splice (int i) 1 [] xs = ([xs ! i], removeAt i xs)"
  by (simp add: splice_def removeAt_def Let_def min_def take_Suc_conv_app_nth hd_drop_conv_nth
      take_Suc Cons_nth_drop_Suc[symmetric])

lemma splice_insert_one:
  "splice j 0 [x] xs = ([], insertAt (clamp_index j (length xs)) x xs)"
  by (simp add: splice_def insertAt_def clamp_index_def Let_def)

section \<open>\<open>moveCard\<close> on resolved identifiers\<close>

lemma clamp_index_length: "clamp_index (int n) n = n"
  by (simp add: clamp_index_def)

lemma clamp_index_le: "clamp_index j n \<le> n"
  by (auto simp: clamp_index_def)

lemma moveCard_resolved:
  assumes f: "find_js (\<lambda>c. column_id c = fromId) (columns state) = Some f"
      and t: "find_js (\<lambda>c. column_id c = toId) (columns state) = Some t"
      and i: "findIndex (\<lambda>c. card_id c = cardId) (cards (columns state ! f)) = int i"
  shows "moveCard fromId toId cardId toIndex state =
     (Returned,
      (let cols = columns state;
           cols1 = cols[f := (cols ! f)\<lparr>cards := removeAt i (cards (cols ! f))\<rparr>];
           dest = cards (cols1 ! t);
           k = (case toIndex of
                  None \<Rightarrow> length dest
                | Some j \<Rightarrow> clamp_index (if fromId = toId \<and> int i < j then j - 1 else j) (length dest))
       in state\<lparr>columns := cols1[t := (cols1 ! t)\<lparr>cards := insertAt k (cards (cols ! f) ! i) dest\<rparr>]\<rparr>))"
proof -
  from findIndex_found[OF i] have il: "i < length (cards (columns state ! f))" by simp
  have ne: "int i \<noteq> - 1" by simp
  show ?thesis
    unfolding moveCard_def
    by (cases toIndex) (simp_all add: f t i Let_def splice_remove_one[OF il, simplified] splice_insert_one clamp_index_length)
qed

lemma length_removeAt: "i < length xs \<Longrightarrow> length (removeAt i xs) = length xs - 1"
  by (simp add: removeAt_def)

lemma length_insertAt: "length (insertAt k x xs) = Suc (length xs)"
  by (simp add: insertAt_def)

lemma at_index_insertAt: "k \<le> length xs \<Longrightarrow> at_index (insertAt k x xs) k x"
  by (simp add: at_index_def insertAt_def nth_append)

lemma removeAt_insertAt: "k \<le> length xs \<Longrightarrow> removeAt k (insertAt k x xs) = xs"
  by (simp add: removeAt_def insertAt_def)

lemma insertAt_end: "insertAt (length xs) x xs = xs @ [x]"
  by (simp add: insertAt_def)

text \<open>The landing slot of a resolved call: where the moved card is inserted into the
  destination sequence as it is after the removal.\<close>

lemma moveCard_landing:
  assumes f: "find_js (\<lambda>c. column_id c = fromId) (columns state) = Some f"
      and t: "find_js (\<lambda>c. column_id c = toId) (columns state) = Some t"
      and i: "findIndex (\<lambda>c. card_id c = cardId) (cards (columns state ! f)) = int i"
  obtains k where
    "k \<le> length (if f = t then removeAt i (cards (columns state ! f)) else cards (columns state ! t))"
    "moveCard fromId toId cardId toIndex state =
       (Returned,
        state\<lparr>columns :=
          (columns state)[f := (columns state ! f)\<lparr>cards := removeAt i (cards (columns state ! f))\<rparr>,
                          t := (if f = t then columns state ! f else columns state ! t)
                                \<lparr>cards := insertAt k (cards (columns state ! f) ! i)
                                   (if f = t then removeAt i (cards (columns state ! f))
                                    else cards (columns state ! t))\<rparr>]\<rparr>)"
    "toIndex = None \<Longrightarrow>
       k = length (if f = t then removeAt i (cards (columns state ! f)) else cards (columns state ! t))"
    "\<And>j. toIndex = Some j \<Longrightarrow>
       k = clamp_index (if fromId = toId \<and> int i < j then j - 1 else j)
             (length (if f = t then removeAt i (cards (columns state ! f)) else cards (columns state ! t)))"
proof -
  from find_js_Some[OF f] have fl: "f < length (columns state)" by simp
  from find_js_Some[OF t] have tl: "t < length (columns state)" by simp
  let ?src = "cards (columns state ! f)"
  let ?dest = "if f = t then removeAt i ?src else cards (columns state ! t)"
  let ?k = "case toIndex of None \<Rightarrow> length ?dest
            | Some j \<Rightarrow> clamp_index (if fromId = toId \<and> int i < j then j - 1 else j) (length ?dest)"
  have k: "?k \<le> length ?dest"
    by (cases toIndex) (simp_all add: clamp_index_le)
  have m: "moveCard fromId toId cardId toIndex state =
       (Returned,
        state\<lparr>columns :=
          (columns state)[f := (columns state ! f)\<lparr>cards := removeAt i ?src\<rparr>,
                          t := (if f = t then columns state ! f else columns state ! t)
                                \<lparr>cards := insertAt ?k (?src ! i) ?dest\<rparr>]\<rparr>)"
    using fl tl by (cases "f = t"; cases toIndex) (simp_all add: moveCard_resolved[OF f t i] Let_def)
  show thesis
    by (rule that[of ?k]) (use k m in \<open>simp_all\<close>)
qed

lemma same_column_slot:
  assumes c: "find_js (\<lambda>x. column_id x = colId) (columns state) = Some c"
      and i: "findIndex (\<lambda>x. card_id x = cardId) (cards (columns state ! c)) = int i"
  shows "fst (moveCard colId colId cardId toIndex state) = Returned \<and>
         cards (columns (snd (moveCard colId colId cardId toIndex state)) ! c) =
           insertAt (case toIndex of
                       None \<Rightarrow> length (cards (columns state ! c)) - 1
                     | Some j \<Rightarrow> clamp_index (if int i < j then j - 1 else j)
                                  (length (cards (columns state ! c)) - 1))
             (cards (columns state ! c) ! i) (removeAt i (cards (columns state ! c)))"
proof -
  from find_js_Some[OF c] have cl: "c < length (columns state)" by simp
  from findIndex_found[OF i] have il: "i < length (cards (columns state ! c))" by simp
  obtain k where k:
    "moveCard colId colId cardId toIndex state =
       (Returned,
        state\<lparr>columns :=
          (columns state)[c := (columns state ! c)\<lparr>cards := removeAt i (cards (columns state ! c))\<rparr>,
                          c := (if c = c then columns state ! c else columns state ! c)
                                \<lparr>cards := insertAt k (cards (columns state ! c) ! i)
                                   (if c = c then removeAt i (cards (columns state ! c))
                                    else cards (columns state ! c))\<rparr>]\<rparr>)"
    "toIndex = None \<Longrightarrow>
       k = length (if c = c then removeAt i (cards (columns state ! c)) else cards (columns state ! c))"
    "\<And>j. toIndex = Some j \<Longrightarrow>
       k = clamp_index (if colId = colId \<and> int i < j then j - 1 else j)
             (length (if c = c then removeAt i (cards (columns state ! c)) else cards (columns state ! c)))"
    by (rule moveCard_landing[OF c c i, of toIndex]) blast
  show ?thesis
    using k cl il by (cases toIndex) (simp_all add: length_removeAt)
qed

subsection \<open>Claim C1: reordering inside one column\<close>

text \<open>
  Claim C1. The column id resolves to slot \<open>c\<close>, the card id resolves to index \<open>i\<close> of
  that column, and the requested index \<open>j\<close> is an index of the column above \<open>i\<close>, the
  end of the column included: \<open>i < j \<le> n\<close> for the \<open>n\<close> cards of the column. Then the call
  returns normally and the column afterwards is the column without the card, with the
  card inserted at index \<open>j - 1\<close>: the moved card ends at index \<open>j - 1\<close>, the requested
  index less the one position that the removal shifted. With the index unspecified the
  card is appended to the end of the sequence.
\<close>

theorem moveCard_same_column_reorder:
  assumes c: "find_js (\<lambda>x. column_id x = colId) (columns state) = Some c"
      and i: "findIndex (\<lambda>x. card_id x = cardId) (cards (columns state ! c)) = int i"
      and ij: "int i < j"
      and jn: "j \<le> int (length (cards (columns state ! c)))"
  shows "fst (moveCard colId colId cardId (Some j) state) = Returned \<and>
         cards (columns (snd (moveCard colId colId cardId (Some j) state)) ! c) =
           insertAt (nat (j - 1)) (cards (columns state ! c) ! i)
             (removeAt i (cards (columns state ! c))) \<and>
         at_index (cards (columns (snd (moveCard colId colId cardId (Some j) state)) ! c))
           (nat (j - 1)) (cards (columns state ! c) ! i) \<and>
         fst (moveCard colId colId cardId None state) = Returned \<and>
         cards (columns (snd (moveCard colId colId cardId None state)) ! c) =
           removeAt i (cards (columns state ! c)) @ [cards (columns state ! c) ! i]"
proof -
  from findIndex_found[OF i] have il: "i < length (cards (columns state ! c))" by simp
  have len: "length (removeAt i (cards (columns state ! c))) = length (cards (columns state ! c)) - 1"
    by (rule length_removeAt[OF il])
  have cl: "clamp_index (j - 1) (length (cards (columns state ! c)) - 1) = nat (j - 1)"
    using ij jn by (simp add: clamp_index_def)
  have le: "nat (j - 1) \<le> length (removeAt i (cards (columns state ! c)))"
    using ij jn len by simp
  have a: "cards (columns (snd (moveCard colId colId cardId (Some j) state)) ! c) =
           insertAt (nat (j - 1)) (cards (columns state ! c) ! i)
             (removeAt i (cards (columns state ! c)))"
    using same_column_slot[OF c i, of "Some j"] ij cl by simp
  have a': "at_index (cards (columns (snd (moveCard colId colId cardId (Some j) state)) ! c))
           (nat (j - 1)) (cards (columns state ! c) ! i)"
    unfolding a by (rule at_index_insertAt[OF le])
  have b: "cards (columns (snd (moveCard colId colId cardId None state)) ! c) =
           removeAt i (cards (columns state ! c)) @ [cards (columns state ! c) ! i]"
    using same_column_slot[OF c i, of None] len insertAt_end[of "removeAt i (cards (columns state ! c))"]
    by simp
  from a a' b same_column_slot[OF c i, of "Some j"] same_column_slot[OF c i, of None]
  show ?thesis by simp
qed

text \<open>Column \<open>a\<close> of the board of three columns holds \<open>c1\<close>, \<open>c2\<close>, \<open>c3\<close>. Card \<open>c1\<close>
  moved from index 0 to requested index 2 ends at index 1, between the other two; with
  the index unspecified it ends last.\<close>

theorem moveCard_same_column_reorder_witness:
  "find_js (\<lambda>x. column_id x = ascii ''a'') (columns wide_board) = Some 0 \<and>
   findIndex (\<lambda>x. card_id x = ascii ''c1'') (cards (columns wide_board ! 0)) = int 0 \<and>
   int 0 < 2 \<and> (2 :: int) \<le> int (length (cards (columns wide_board ! 0))) \<and>
   fst (moveCard (ascii ''a'') (ascii ''a'') (ascii ''c1'') (Some 2) wide_board) = Returned \<and>
   cards (columns (snd (moveCard (ascii ''a'') (ascii ''a'') (ascii ''c1'') (Some 2)
              wide_board)) ! 0) = [card_c2, card_c1, card_c3] \<and>
   at_index (cards (columns (snd (moveCard (ascii ''a'') (ascii ''a'') (ascii ''c1'') (Some 2)
              wide_board)) ! 0)) 1 card_c1 \<and>
   cards (columns (snd (moveCard (ascii ''a'') (ascii ''a'') (ascii ''c1'') None
              wide_board)) ! 0) = [card_c2, card_c3, card_c1]"
proof -
  have c: "find_js (\<lambda>x. column_id x = ascii ''a'') (columns wide_board) = Some 0"
    by (simp add: find_js_def wide_board_def ascii_def)
  have i: "findIndex (\<lambda>x. card_id x = ascii ''c1'') (cards (columns wide_board ! 0)) = int 0"
    by (simp add: wide_board_def card_c1_def card_c2_def card_c3_def ascii_def)
  have ij: "int 0 < 2" by simp
  have jn: "(2 :: int) \<le> int (length (cards (columns wide_board ! 0)))"
    by (simp add: wide_board_def)
  have cs: "cards (columns wide_board ! 0) = [card_c1, card_c2, card_c3]"
    by (simp add: wide_board_def)
  from moveCard_same_column_reorder[OF c i ij jn] c i jn show ?thesis
    by (simp add: cs removeAt_def insertAt_def at_index_def)
qed

text \<open>A requested index beyond the end of the column, which the drop handler never
  passes, is clamped by \<open>splice\<close>: the card then ends at the last index.\<close>

lemma moveCard_same_column_beyond_end:
  assumes c: "find_js (\<lambda>x. column_id x = colId) (columns state) = Some c"
      and i: "findIndex (\<lambda>x. card_id x = cardId) (cards (columns state ! c)) = int i"
      and jn: "int (length (cards (columns state ! c))) < j"
  shows "cards (columns (snd (moveCard colId colId cardId (Some j) state)) ! c) =
           removeAt i (cards (columns state ! c)) @ [cards (columns state ! c) ! i]"
proof -
  from findIndex_found[OF i] have il: "i < length (cards (columns state ! c))" by simp
  have len: "length (removeAt i (cards (columns state ! c))) = length (cards (columns state ! c)) - 1"
    by (rule length_removeAt[OF il])
  have ij: "int i < j" using il jn by simp
  have cl: "clamp_index (j - 1) (length (cards (columns state ! c)) - 1)
              = length (removeAt i (cards (columns state ! c)))"
    using jn len by (simp add: clamp_index_def)
  show ?thesis
    using same_column_slot[OF c i, of "Some j"] ij cl insertAt_end[of "removeAt i (cards (columns state ! c))"]
    by simp
qed

subsection \<open>Claim C2: conservation\<close>

lemma sum_list_move_one:
  fixes xs :: "nat list"
  assumes "f < length xs" "t < length xs" "f \<noteq> t" "0 < xs ! f"
  shows "sum_list (xs[f := xs ! f - 1, t := Suc (xs ! t)]) = sum_list xs"
proof -
  have le: "xs ! f \<le> sum_list xs" using assms(1) by (simp add: elem_le_sum_list)
  have "sum_list (xs[f := xs ! f - 1]) = sum_list xs + (xs ! f - 1) - xs ! f"
    using assms(1) by (simp add: sum_list_update)
  with le assms(4) have a: "Suc (sum_list (xs[f := xs ! f - 1])) = sum_list xs" by simp
  have "sum_list (xs[f := xs ! f - 1, t := Suc (xs ! t)]) =
        sum_list (xs[f := xs ! f - 1]) + Suc (xs ! t) - (xs[f := xs ! f - 1]) ! t"
    using assms(2) by (simp add: sum_list_update)
  with assms(3) a show ?thesis by simp
qed

text \<open>
  Claim C2. When the source column id, the destination column id and the card id (in the
  source column) all resolve, \<open>moveCard\<close> returns normally, the number of cards summed
  over all columns of the board is the same before and after the call, and the card that
  was at the source index, with its id and its title, is a card of the destination column
  afterwards.
\<close>

theorem moveCard_conservation:
  assumes f: "find_js (\<lambda>c. column_id c = fromId) (columns state) = Some f"
      and t: "find_js (\<lambda>c. column_id c = toId) (columns state) = Some t"
      and i: "findIndex (\<lambda>c. card_id c = cardId) (cards (columns state ! f)) = int i"
  shows "fst (moveCard fromId toId cardId toIndex state) = Returned \<and>
         total_cards (snd (moveCard fromId toId cardId toIndex state)) = total_cards state \<and>
         (\<exists>k. at_index (cards (columns (snd (moveCard fromId toId cardId toIndex state)) ! t)) k
                 (cards (columns state ! f) ! i)) \<and>
         card_id (cards (columns state ! f) ! i) = cardId"
proof -
  from find_js_Some[OF f] have fl: "f < length (columns state)" by simp
  from find_js_Some[OF t] have tl: "t < length (columns state)" by simp
  from findIndex_found[OF i] have il: "i < length (cards (columns state ! f))"
    and cid: "card_id (cards (columns state ! f) ! i) = cardId" by simp_all
  let ?src = "cards (columns state ! f)"
  let ?dest = "if f = t then removeAt i ?src else cards (columns state ! t)"
  obtain k where kl: "k \<le> length ?dest"
    and m: "moveCard fromId toId cardId toIndex state =
       (Returned,
        state\<lparr>columns :=
          (columns state)[f := (columns state ! f)\<lparr>cards := removeAt i ?src\<rparr>,
                          t := (if f = t then columns state ! f else columns state ! t)
                                \<lparr>cards := insertAt k (?src ! i) ?dest\<rparr>]\<rparr>)"
    by (rule moveCard_landing[OF f t i, of toIndex]) blast
  let ?g = "\<lambda>c. length (cards c)"
  have total: "total_cards (snd (moveCard fromId toId cardId toIndex state)) = total_cards state"
  proof (cases "f = t")
    case True
    have "map ?g ((columns state)[t := (columns state ! t)
             \<lparr>cards := insertAt k (cards (columns state ! t) ! i)
                (removeAt i (cards (columns state ! t)))\<rparr>]) = map ?g (columns state)"
    proof -
      have "Suc (length (cards (columns state ! t)) - Suc 0) = map ?g (columns state) ! t"
        using il True tl by simp
      then have "(map ?g (columns state))[t := Suc (length (cards (columns state ! t)) - Suc 0)]
                  = map ?g (columns state)"
        by (simp only: list_update_id)
      then show ?thesis
        using il True tl by (simp add: map_update length_insertAt length_removeAt)
    qed
    with True show ?thesis by (simp add: m total_cards_def)
  next
    case False
    have "map ?g ((columns state)[f := (columns state ! f)\<lparr>cards := removeAt i ?src\<rparr>,
                          t := (columns state ! t)\<lparr>cards := insertAt k (?src ! i) (cards (columns state ! t))\<rparr>])
          = (map ?g (columns state))[f := map ?g (columns state) ! f - 1,
                                      t := Suc (map ?g (columns state) ! t)]"
      using fl tl il by (simp add: map_update length_insertAt length_removeAt)
    moreover have "sum_list ((map ?g (columns state))[f := map ?g (columns state) ! f - 1,
                                      t := Suc (map ?g (columns state) ! t)]) = sum_list (map ?g (columns state))"
      using fl tl il False by (intro sum_list_move_one) auto
    ultimately show ?thesis using False by (simp add: m total_cards_def)
  qed
  have at: "at_index (cards (columns (snd (moveCard fromId toId cardId toIndex state)) ! t)) k (?src ! i)"
    using tl fl kl by (simp add: m at_index_insertAt)
  from total at cid show ?thesis by (auto simp: m)
qed

text \<open>The specification's scenario: \<open>c1\<close> moved from column \<open>a\<close> to index 0 of
  column \<open>b\<close>.\<close>

theorem moveCard_conservation_witness:
  "find_js (\<lambda>c. column_id c = ascii ''a'') (columns scenario_board) = Some 0 \<and>
   find_js (\<lambda>c. column_id c = ascii ''b'') (columns scenario_board) = Some 1 \<and>
   findIndex (\<lambda>c. card_id c = ascii ''c1'') (cards (columns scenario_board ! 0)) = int 0 \<and>
   fst (moveCard (ascii ''a'') (ascii ''b'') (ascii ''c1'') (Some 0) scenario_board) = Returned \<and>
   total_cards (snd (moveCard (ascii ''a'') (ascii ''b'') (ascii ''c1'') (Some 0) scenario_board)) = 2 \<and>
   (\<exists>k. at_index (cards (columns (snd (moveCard (ascii ''a'') (ascii ''b'') (ascii ''c1'') (Some 0)
                 scenario_board)) ! 1)) k card_c1)"
proof -
  have f: "find_js (\<lambda>c. column_id c = ascii ''a'') (columns scenario_board) = Some 0"
    by (simp add: find_js_def scenario_board_def ascii_def)
  have t: "find_js (\<lambda>c. column_id c = ascii ''b'') (columns scenario_board) = Some 1"
    by (simp add: find_js_def scenario_board_def ascii_def)
  have i: "findIndex (\<lambda>c. card_id c = ascii ''c1'') (cards (columns scenario_board ! 0)) = int 0"
    by (simp add: scenario_board_def card_c1_def card_c2_def ascii_def)
  have tc: "total_cards scenario_board = 2" "cards (columns scenario_board ! 0) ! 0 = card_c1"
    by (simp_all add: total_cards_def scenario_board_def)
  from moveCard_conservation[OF f t i, of "Some 0"] f t i tc show ?thesis
    by simp
qed

subsection \<open>Claim C10: the other cards and the other columns\<close>

text \<open>
  Claim C10. When the source column id, the destination column id and the card id all
  resolve, the board has the same number of columns afterwards, every column other than
  the source and the destination is unchanged, the source column (when it is not the
  destination) holds its former cards without the moved one in their former order, and
  the destination column without the moved card holds its former other cards in their
  former order.
\<close>

theorem moveCard_other_cards_keep_order:
  assumes f: "find_js (\<lambda>c. column_id c = fromId) (columns state) = Some f"
      and t: "find_js (\<lambda>c. column_id c = toId) (columns state) = Some t"
      and i: "findIndex (\<lambda>c. card_id c = cardId) (cards (columns state ! f)) = int i"
  shows "length (columns (snd (moveCard fromId toId cardId toIndex state))) = length (columns state) \<and>
         (\<forall>n < length (columns state). n \<noteq> f \<and> n \<noteq> t \<longrightarrow>
              columns (snd (moveCard fromId toId cardId toIndex state)) ! n = columns state ! n) \<and>
         (f \<noteq> t \<longrightarrow>
            cards (columns (snd (moveCard fromId toId cardId toIndex state)) ! f) =
              removeAt i (cards (columns state ! f))) \<and>
         (\<exists>k. at_index (cards (columns (snd (moveCard fromId toId cardId toIndex state)) ! t)) k
                 (cards (columns state ! f) ! i) \<and>
              removeAt k (cards (columns (snd (moveCard fromId toId cardId toIndex state)) ! t)) =
                (if f = t then removeAt i (cards (columns state ! f)) else cards (columns state ! t)))"
proof -
  from find_js_Some[OF f] have fl: "f < length (columns state)" by simp
  from find_js_Some[OF t] have tl: "t < length (columns state)" by simp
  let ?src = "cards (columns state ! f)"
  let ?dest = "if f = t then removeAt i ?src else cards (columns state ! t)"
  obtain k where kl: "k \<le> length ?dest"
    and m: "moveCard fromId toId cardId toIndex state =
       (Returned,
        state\<lparr>columns :=
          (columns state)[f := (columns state ! f)\<lparr>cards := removeAt i ?src\<rparr>,
                          t := (if f = t then columns state ! f else columns state ! t)
                                \<lparr>cards := insertAt k (?src ! i) ?dest\<rparr>]\<rparr>)"
    by (rule moveCard_landing[OF f t i, of toIndex]) blast
  have a: "length (columns (snd (moveCard fromId toId cardId toIndex state))) = length (columns state)"
    by (simp add: m)
  have b: "\<forall>n < length (columns state). n \<noteq> f \<and> n \<noteq> t \<longrightarrow>
              columns (snd (moveCard fromId toId cardId toIndex state)) ! n = columns state ! n"
    by (simp add: m)
  have c: "f \<noteq> t \<longrightarrow> cards (columns (snd (moveCard fromId toId cardId toIndex state)) ! f) =
              removeAt i ?src"
    using fl by (simp add: m)
  have d: "at_index (cards (columns (snd (moveCard fromId toId cardId toIndex state)) ! t)) k (?src ! i) \<and>
           removeAt k (cards (columns (snd (moveCard fromId toId cardId toIndex state)) ! t)) = ?dest"
    using tl kl by (simp add: m at_index_insertAt removeAt_insertAt)
  from a b c d show ?thesis by blast
qed

text \<open>On the board of three columns, card \<open>c2\<close> moved from the middle of column \<open>a\<close>
  to index 1 of column \<open>b\<close>: column \<open>a\<close> keeps \<open>c1\<close>, \<open>c3\<close> in this order, column \<open>b\<close>
  without the moved card is \<open>c4\<close>, \<open>c5\<close> in this order, and column \<open>c\<close> is as it was.\<close>

theorem moveCard_other_cards_keep_order_witness:
  "find_js (\<lambda>c. column_id c = ascii ''a'') (columns wide_board) = Some 0 \<and>
   find_js (\<lambda>c. column_id c = ascii ''b'') (columns wide_board) = Some 1 \<and>
   findIndex (\<lambda>c. card_id c = ascii ''c2'') (cards (columns wide_board ! 0)) = int 1 \<and>
   length (columns (snd (moveCard (ascii ''a'') (ascii ''b'') (ascii ''c2'') (Some 1) wide_board))) = 3 \<and>
   columns (snd (moveCard (ascii ''a'') (ascii ''b'') (ascii ''c2'') (Some 1) wide_board)) ! 2
     = \<lparr>column_id = ascii ''c'', column_title = ascii ''C'', cards = [card_c6, card_c7]\<rparr> \<and>
   cards (columns (snd (moveCard (ascii ''a'') (ascii ''b'') (ascii ''c2'') (Some 1) wide_board)) ! 0)
     = [card_c1, card_c3] \<and>
   (\<exists>k. at_index (cards (columns (snd (moveCard (ascii ''a'') (ascii ''b'') (ascii ''c2'') (Some 1)
                 wide_board)) ! 1)) k card_c2 \<and>
        removeAt k (cards (columns (snd (moveCard (ascii ''a'') (ascii ''b'') (ascii ''c2'') (Some 1)
                 wide_board)) ! 1)) = [card_c4, card_c5])"
proof -
  have f: "find_js (\<lambda>c. column_id c = ascii ''a'') (columns wide_board) = Some 0"
    by (simp add: find_js_def wide_board_def ascii_def)
  have t: "find_js (\<lambda>c. column_id c = ascii ''b'') (columns wide_board) = Some 1"
    by (simp add: find_js_def wide_board_def ascii_def)
  have i: "findIndex (\<lambda>c. card_id c = ascii ''c2'') (cards (columns wide_board ! 0)) = int 1"
    by (simp add: wide_board_def card_c1_def card_c2_def card_c3_def ascii_def)
  have ev: "cards (columns wide_board ! 0) = [card_c1, card_c2, card_c3]"
      "cards (columns wide_board ! 1) = [card_c4, card_c5]"
      "cards (columns wide_board ! Suc 0) = [card_c4, card_c5]"
      "columns wide_board ! 2 =
         \<lparr>column_id = ascii ''c'', column_title = ascii ''C'', cards = [card_c6, card_c7]\<rparr>"
      "length (columns wide_board) = 3"
    by (simp_all add: wide_board_def)
  let ?s = "snd (moveCard (ascii ''a'') (ascii ''b'') (ascii ''c2'') (Some 1) wide_board)"
  note T = moveCard_other_cards_keep_order[OF f t i, of "Some 1"]
  from T have l: "length (columns ?s) = 3"
    by (simp add: ev)
  from T have "\<forall>n < length (columns wide_board). n \<noteq> 0 \<and> n \<noteq> 1 \<longrightarrow>
                 columns ?s ! n = columns wide_board ! n"
    by blast
  then have o: "columns ?s ! 2 = columns wide_board ! 2"
    by (simp add: ev)
  from T have s0: "cards (columns ?s ! 0) = [card_c1, card_c3]"
    by (simp add: ev removeAt_def)
  from T have d: "\<exists>k. at_index (cards (columns ?s ! 1)) k card_c2 \<and>
                     removeAt k (cards (columns ?s ! 1)) = [card_c4, card_c5]"
    by (simp add: ev)
  from f t i l o s0 d show ?thesis
    by (simp add: ev)
qed

section \<open>The branches of the message handler\<close>

subsection \<open>Claim C4: identifiers that do not resolve\<close>

text \<open>In the host's handler every branch guards its lookups: with a column or card id
  that does not resolve, the parsed board is returned as it was and \<open>dirty\<close> stays
  false, so nothing is written.\<close>

lemma dispatch_unresolved_column:
  assumes "find_js (\<lambda>c. column_id c = columnId) (columns data) = None"
  shows "dispatch h (DeleteColumn columnId) data = (data, False, False)"
    and "dispatch h (RenameColumn columnId newTitle) data = (data, False, False)"
    and "dispatch h (AddCard columnId) data = (data, False, False)"
    and "dispatch h (DeleteCard columnId cardId) data = (data, False, False)"
    and "dispatch h (MoveColumn columnId toId) data = (data, False, False)"
    and "dispatch h (MoveColumn fromId columnId) data = (data, False, False)"
  using assms find_js_None[OF assms]
  by (simp_all add: dispatch_def Let_def split: option.splits)

lemma dispatch_unresolved_card:
  assumes "find_js (\<lambda>c. column_id c = columnId) (columns data) = Some col"
      and "findIndex (\<lambda>c. card_id c = cardId) (cards (columns data ! col)) = - 1"
  shows "dispatch h (DeleteCard columnId cardId) data = (data, False, False)"
  using assms by (simp add: dispatch_def Let_def)

text \<open>The webview's \<open>moveCard\<close> guards the card lookup only.\<close>

lemma moveCard_unresolved_card:
  assumes "find_js (\<lambda>c. column_id c = fromId) (columns state) = Some f"
      and "findIndex (\<lambda>c. card_id c = cardId) (cards (columns state ! f)) = - 1"
  shows "moveCard fromId toId cardId toIndex state = (Returned, state)"
  using assms by (simp add: moveCard_def Let_def)

text \<open>
  Claim C4 says that every mutation whose column or card id does not resolve leaves the
  board unchanged and surfaces no error. \<open>moveCard\<close> on the scenario board does neither
  for a column id \<open>zz\<close> that is not on the board: as the source column, the call throws a
  TypeError; as the destination column, the card \<open>c1\<close> is first removed from column \<open>a\<close>
  and then the call throws, so the card is gone from the state. The drop handler passes
  as destination the id of a column of the current render and as source the id noted
  when the drag began, so in the webview it is the source column id that can be stale.
\<close>

theorem moveCard_unresolved_column_throws:
  "find_js (\<lambda>c. column_id c = ascii ''zz'') (columns scenario_board) = None \<and>
   moveCard (ascii ''zz'') (ascii ''a'') (ascii ''c1'') (Some 0) scenario_board
     = (TypeError, scenario_board) \<and>
   moveCard (ascii ''a'') (ascii ''zz'') (ascii ''c1'') (Some 0) scenario_board
     = (TypeError,
        \<lparr>columns =
          [\<lparr>column_id = ascii ''a'', column_title = ascii ''A'', cards = [card_c2]\<rparr>,
           \<lparr>column_id = ascii ''b'', column_title = ascii ''B'', cards = []\<rparr>]\<rparr>)"
  by (simp add: moveCard_def find_js_def splice_def scenario_board_def card_c1_def card_c2_def
      ascii_def Let_def)

subsection \<open>Claim C5: moving a column\<close>

text \<open>
  Claim C5. When \<open>fromId\<close> resolves to the column at index \<open>fi\<close> and \<open>toId\<close> to the column
  at a different index \<open>ti\<close>, the \<open>move-column\<close> branch takes the column out and inserts it
  at index \<open>ti\<close>, the index the dropped-on column had, with no adjustment of that index:
  afterwards the moved column is at index \<open>ti\<close> and the other columns keep their order.
  The branch sets \<open>dirty\<close>.
\<close>

theorem move_column_to_target_slot:
  assumes fi: "findIndex (\<lambda>c. column_id c = fromId) (columns data) = int fi"
      and ti: "findIndex (\<lambda>c. column_id c = toId) (columns data) = int ti"
      and ne: "fi \<noteq> ti"
  shows "dispatch h (MoveColumn fromId toId) data =
           (data\<lparr>columns := insertAt ti (columns data ! fi) (removeAt fi (columns data))\<rparr>, True, False) \<and>
         at_index (columns (fst (dispatch h (MoveColumn fromId toId) data))) ti (columns data ! fi) \<and>
         removeAt ti (columns (fst (dispatch h (MoveColumn fromId toId) data))) = removeAt fi (columns data)"
proof -
  from findIndex_found[OF fi] have fl: "fi < length (columns data)" by simp
  from findIndex_found[OF ti] have tl: "ti < length (columns data)" by simp
  have len: "ti \<le> length (removeAt fi (columns data))"
    using fl tl by (simp add: length_removeAt)
  have ci: "clamp_index (int ti) (length (removeAt fi (columns data))) = ti"
    using len by (simp add: clamp_index_def)
  have d: "dispatch h (MoveColumn fromId toId) data =
           (data\<lparr>columns := insertAt ti (columns data ! fi) (removeAt fi (columns data))\<rparr>, True, False)"
    using ne by (simp add: dispatch_def fi ti Let_def splice_remove_one[OF fl, simplified]
        splice_insert_one ci)
  show ?thesis
    using len by (simp add: d at_index_insertAt removeAt_insertAt)
qed

text \<open>Column \<open>a\<close> dropped on column \<open>b\<close> of the scenario board.\<close>

theorem move_column_to_target_slot_witness:
  "findIndex (\<lambda>c. column_id c = ascii ''a'') (columns scenario_board) = int 0 \<and>
   findIndex (\<lambda>c. column_id c = ascii ''b'') (columns scenario_board) = int 1 \<and>
   (0 :: nat) \<noteq> 1 \<and>
   columns (fst (dispatch example_host (MoveColumn (ascii ''a'') (ascii ''b'')) scenario_board))
     = [columns scenario_board ! 1, columns scenario_board ! 0] \<and>
   at_index (columns (fst (dispatch example_host (MoveColumn (ascii ''a'') (ascii ''b''))
       scenario_board))) 1 (columns scenario_board ! 0)"
proof -
  have fi: "findIndex (\<lambda>c. column_id c = ascii ''a'') (columns scenario_board) = int 0"
    by (simp add: scenario_board_def ascii_def)
  have ti: "findIndex (\<lambda>c. column_id c = ascii ''b'') (columns scenario_board) = int 1"
    by (simp add: scenario_board_def ascii_def)
  have ne: "(0 :: nat) \<noteq> 1" by simp
  have cols: "insertAt 1 (columns scenario_board ! 0) (removeAt 0 (columns scenario_board))
              = [columns scenario_board ! 1, columns scenario_board ! 0]"
    by (simp add: insertAt_def removeAt_def scenario_board_def)
  from move_column_to_target_slot[OF fi ti ne, of example_host] fi ti cols show ?thesis
    by (simp add: at_index_def)
qed

subsection \<open>Claim C6: renaming a column to a blank title\<close>

lemma trim_blank: "\<forall>c \<in> set s. is_js_whitespace c \<Longrightarrow> trim s = []"
proof -
  assume "\<forall>c \<in> set s. is_js_whitespace c"
  then have d: "dropWhile is_js_whitespace s = []" by (induction s) auto
  show ?thesis unfolding trim_def d by simp
qed

text \<open>
  Claim C6, as the code has it. The blank title is rejected in the webview, before any
  message exists: when the text of the title editor is empty or consists of white space
  only, \<open>saveRename\<close> posts no message and puts the column's title back into the editor.
  The host's \<open>rename-column\<close> branch does not look at \<open>newTitle\<close>: for a column id that
  resolves it sets the title to whatever the message carries.
\<close>

theorem rename_blank_rejected_by_editor:
  "((\<forall>c \<in> set textContent. is_js_whitespace c) \<longrightarrow>
      saveRename col textContent = (None, column_title col)) \<and>
   (find_js (\<lambda>c. column_id c = columnId) (columns data) = Some k \<longrightarrow>
      column_title (columns (fst (dispatch h (RenameColumn columnId newTitle) data)) ! k) = newTitle)"
proof -
  have "find_js (\<lambda>c. column_id c = columnId) (columns data) = Some k \<Longrightarrow> k < length (columns data)"
    by (simp add: find_js_Some)
  then show ?thesis
    by (auto simp: saveRename_def trim_blank dispatch_def)
qed

text \<open>Two spaces typed into the title of column \<open>a\<close>; and a message that renames
  column \<open>a\<close> to \<open>Z\<close>.\<close>

theorem rename_blank_rejected_by_editor_witness:
  "list_all is_js_whitespace (ascii ''  '') \<and>
   saveRename (columns scenario_board ! 0) (ascii ''  '') = (None, ascii ''A'') \<and>
   find_js (\<lambda>c. column_id c = ascii ''a'') (columns scenario_board) = Some 0 \<and>
   column_title (columns (fst (dispatch example_host (RenameColumn (ascii ''a'') (ascii ''Z''))
       scenario_board)) ! 0) = ascii ''Z''"
proof -
  have b: "\<forall>c \<in> set (ascii ''  ''). is_js_whitespace c"
    by (simp add: ascii_def is_js_whitespace_def)
  have c: "find_js (\<lambda>c. column_id c = ascii ''a'') (columns scenario_board) = Some 0"
    by (simp add: find_js_def scenario_board_def ascii_def)
  from rename_blank_rejected_by_editor[of "ascii ''  ''" "columns scenario_board ! 0"
      "ascii ''a''" scenario_board 0 example_host "ascii ''Z''"] b c
  show ?thesis by (simp add: scenario_board_def list_all_iff)
qed

text \<open>The claim as stated fails: a \<open>rename-column\<close> message with a title of two spaces
  is applied, the title of column \<open>a\<close> changes from \<open>A\<close> to the two spaces and the
  document is marked dirty.\<close>

theorem rename_blank_message_counterexample:
  "find_js (\<lambda>c. column_id c = ascii ''a'') (columns scenario_board) = Some 0 \<and>
   trim (ascii ''  '') = [] \<and>
   column_title (columns scenario_board ! 0) = ascii ''A'' \<and>
   column_title (columns (fst (dispatch example_host (RenameColumn (ascii ''a'') (ascii ''  ''))
       scenario_board)) ! 0) = ascii ''  '' \<and>
   ascii ''  '' \<noteq> ascii ''A'' \<and>
   fst (snd (dispatch example_host (RenameColumn (ascii ''a'') (ascii ''  '')) scenario_board))"
  by (simp add: dispatch_def find_js_def scenario_board_def ascii_def trim_def
      is_js_whitespace_def)

subsection \<open>Claim C7: generated identifiers\<close>




section \<open>Serialized boards parse back\<close>

subsection \<open>Strings\<close>

lemma unat_lt_65536: "unat (c :: 16 word) < 65536"
  using unsigned_less[of c, where 'a=nat] by simp

lemma unat_of_nat_small: "k < 65536 \<Longrightarrow> unat (of_nat k :: 16 word) = k"
  by (simp add: unat_of_nat)

lemma unat_hex_digit: 
  assumes "d < 16"
  shows "unat (hex_digit d) = (if d < 10 then 48 + d else 87 + d)"
proof -
  have "unat (hex_digit d) = unat (of_nat (if d < 10 then 48 + d else 87 + d) :: 16 word)"
    by (simp add: hex_digit_def del: of_nat_add)
  also have "\<dots> = (if d < 10 then 48 + d else 87 + d)"
    using assms by (intro unat_of_nat_small) auto
  finally show ?thesis .
qed

lemma hex_value_hex_digit: "d < 16 \<Longrightarrow> hex_value (hex_digit d) = Some d"
  by (simp add: hex_value_def word_le_nat_alt unat_hex_digit)

lemma nibbles: 
  fixes n :: nat
  assumes "n < 65536"
  shows "((n div 4096 mod 16 * 16 + n div 256 mod 16) * 16 + n div 16 mod 16) * 16 + n mod 16 = n"
proof -
  have q2: "n div 256 = n div 16 div 16" by (simp add: div_mult2_eq[symmetric])
  have q3: "n div 4096 = n div 256 div 16" by (simp add: div_mult2_eq[symmetric])
  have e4: "n div 4096 mod 16 = n div 4096" using assms by simp
  have e3: "n div 4096 * 16 + n div 256 mod 16 = n div 256" unfolding q3 by (rule div_mult_mod_eq)
  have e2: "n div 256 * 16 + n div 16 mod 16 = n div 16" unfolding q2 by (rule div_mult_mod_eq)
  have e1: "n div 16 * 16 + n mod 16 = n" by (rule div_mult_mod_eq)
  show ?thesis by (simp only: e4 e3 e2 e1)
qed

lemma hex4_UnicodeEscape: "hex4 (drop 2 (UnicodeEscape c)) = Some c"
proof -
  let ?n = "unat c"
  have m: "map hex_value (drop 2 (UnicodeEscape c)) =
           [Some (?n div 4096 mod 16), Some (?n div 256 mod 16), Some (?n div 16 mod 16), Some (?n mod 16)]"
    by (simp add: UnicodeEscape_def hex_value_hex_digit)
  have "hex4 (drop 2 (UnicodeEscape c)) =
        Some (of_nat (((?n div 4096 mod 16 * 16 + ?n div 256 mod 16) * 16 + ?n div 16 mod 16) * 16 + ?n mod 16))"
    unfolding hex4_def m by (simp only: list.case option.case)
  also have "\<dots> = Some (of_nat ?n)"
    by (simp only: nibbles[OF unat_lt_65536])
  finally show ?thesis by simp
qed

lemma lex_string_escape:
  "escape_value e = Some v \<Longrightarrow> e \<noteq> 0x75 \<Longrightarrow> lex_string acc (0x5C # e # r) = lex_string (v # acc) r"
  by simp

lemma lex_string_unicode: "lex_string acc (UnicodeEscape c @ r) = lex_string (c # acc) r"
proof -
  define t where "t = drop 2 (UnicodeEscape c)"
  have u: "UnicodeEscape c = 0x5C # 0x75 # t" and l: "length t = 4"
    by (simp_all add: t_def UnicodeEscape_def)
  have h: "hex4 t = Some c"
    unfolding t_def by (rule hex4_UnicodeEscape)
  show ?thesis
    unfolding u using l h by simp
qed

lemma lex_string_literal:
  "c \<noteq> 0x22 \<Longrightarrow> c \<noteq> 0x5C \<Longrightarrow> \<not> c < 0x20 \<Longrightarrow> lex_string acc (c # r) = lex_string (c # acc) r"
  by simp

lemma trailing_surrogate_literal:
  "is_trailing_surrogate d \<Longrightarrow> d \<noteq> 0x22 \<and> d \<noteq> 0x5C \<and> \<not> d < 0x20"
  by (auto simp: is_trailing_surrogate_def word_le_nat_alt word_less_nat_alt)

lemma lex_string_close: "lex_string acc (0x22 # r) = Some (rev acc, r)"
  by simp

lemma lex_string_quote_units:
  "lex_string acc (quote_units s @ 0x22 # rest) = Some (rev acc @ s, rest)"
proof (induction s arbitrary: acc rule: quote_units.induct)
  case 1
  show ?case by simp
next
  case (2 c cs)
  note lex_string.simps(2)[simp del]
  consider (bs) "c = 0x08" | (tab) "c = 0x09" | (lf) "c = 0x0A" | (ff) "c = 0x0C" | (cr) "c = 0x0D"
    | (dq) "c = 0x22" | (bsl) "c = 0x5C"
    | (ctl) "c \<notin> {0x08, 0x09, 0x0A, 0x0C, 0x0D, 0x22, 0x5C}" "c < 0x20"
    | (lead) "c \<notin> {0x08, 0x09, 0x0A, 0x0C, 0x0D, 0x22, 0x5C}" "\<not> c < 0x20" "is_leading_surrogate c"
    | (trail) "c \<notin> {0x08, 0x09, 0x0A, 0x0C, 0x0D, 0x22, 0x5C}" "\<not> c < 0x20" "\<not> is_leading_surrogate c"
        "is_trailing_surrogate c"
    | (lit) "c \<notin> {0x08, 0x09, 0x0A, 0x0C, 0x0D, 0x22, 0x5C}" "\<not> c < 0x20" "\<not> is_leading_surrogate c"
        "\<not> is_trailing_surrogate c"
    by blast
  then show ?case
  proof cases
    case bs
    then show ?thesis using "2.IH"(1)[of "0x08 # acc"]
      by (simp add: lex_string_escape[of "0x62" "0x08"] escape_value_def)
  next
    case tab
    then show ?thesis using "2.IH"(2)[of "0x09 # acc"]
      by (simp add: lex_string_escape[of "0x74" "0x09"] escape_value_def)
  next
    case lf
    then show ?thesis using "2.IH"(3)[of "0x0A # acc"]
      by (simp add: lex_string_escape[of "0x6E" "0x0A"] escape_value_def)
  next
    case ff
    then show ?thesis using "2.IH"(4)[of "0x0C # acc"]
      by (simp add: lex_string_escape[of "0x66" "0x0C"] escape_value_def)
  next
    case cr
    then show ?thesis using "2.IH"(5)[of "0x0D # acc"]
      by (simp add: lex_string_escape[of "0x72" "0x0D"] escape_value_def)
  next
    case dq
    then show ?thesis using "2.IH"(6)[of "0x22 # acc"]
      by (simp add: lex_string_escape[of "0x22" "0x22"] escape_value_def)
  next
    case bsl
    then show ?thesis using "2.IH"(7)[of "0x5C # acc"]
      by (simp add: lex_string_escape[of "0x5C" "0x5C"] escape_value_def)
  next
    case ctl
    then show ?thesis using "2.IH"(8)[of "c # acc"]
      by (simp add: lex_string_unicode)
  next
    case lead
    show ?thesis
    proof (cases cs)
      case Nil
      with lead show ?thesis
        by (simp add: lex_string_unicode lex_string_close)
    next
      case (Cons d ds)
      show ?thesis
      proof (cases "is_trailing_surrogate d")
        case True
        from trailing_surrogate_literal[OF True] lead True Cons "2.IH"(9)[of d ds "d # c # acc"]
        show ?thesis
          by (simp add: lex_string_literal)
      next
        case False
        with lead Cons "2.IH"(10)[of d ds "c # acc"] show ?thesis
          by (simp add: lex_string_unicode)
      qed
    qed
  next
    case trail
    then show ?thesis using "2.IH"(11)[of "c # acc"]
      by (simp add: lex_string_unicode)
  next
    case lit
    then show ?thesis using "2.IH"(12)[of "c # acc"]
      by (simp add: lex_string_literal)
  qed
qed

subsection \<open>Tokens of the serialized text\<close>

declare lex.simps [simp del]

lemma lexes_as_Nil: "lexes_as [] []"
  by (simp add: lexes_as_def split: option.splits)

lemma lexes_as_append: "lexes_as a ta \<Longrightarrow> lexes_as b tb \<Longrightarrow> lexes_as (a @ b) (ta @ tb)"
  by (simp add: lexes_as_def split: option.splits)

lemma lexes_as_space: "lexes_as (replicate n 0x20) []"
  by (induction n) (simp_all add: lexes_as_def lex.simps split: option.splits)

lemma lexes_as_newline_indent: "lexes_as (newline_indent n) []"
  using lexes_as_space[of "2 * n"]
  by (simp add: lexes_as_def newline_indent_def lex.simps)

lemma lexes_as_punct:
  "lexes_as (ascii ''{'') [LBrace]" "lexes_as (ascii ''}'') [RBrace]"
  "lexes_as (ascii ''['') [LBracket]" "lexes_as (ascii '']'') [RBracket]"
  "lexes_as (ascii '','') [Comma]" "lexes_as (ascii '': '') [Colon]"
  "lexes_as (ascii ''[]'') [LBracket, RBracket]" "lexes_as (ascii ''{}'') [LBrace, RBrace]"
  by (simp_all add: lexes_as_def ascii_def lex.simps split: option.splits)

lemma lexes_as_QuoteJSONString: "lexes_as (QuoteJSONString s) [TString s]"
  using lex_string_quote_units[of "[]" s]
  by (simp add: lexes_as_def QuoteJSONString_def lex.simps split: option.splits)

lemma lexes_as_join:
  "lexes_as sep [Comma] \<Longrightarrow> list_all2 lexes_as parts tparts \<Longrightarrow>
   lexes_as (join sep parts) (commas tparts)"
proof (induction sep parts arbitrary: tparts rule: join.induct)
  case (1 sep)
  then show ?case by (simp add: lexes_as_Nil)
next
  case (2 sep x)
  then show ?case by (auto simp: list_all2_Cons1)
next
  case (3 sep x y ys)
  from "3.prems"(2) obtain t u us where t: "tparts = t # u # us" "lexes_as x t"
      "list_all2 lexes_as (y # ys) (u # us)"
    by (auto simp: list_all2_Cons1)
  from "3.IH"[OF "3.prems"(1) t(3)] have "lexes_as (join sep (y # ys)) (commas (u # us))" .
  with t(2) "3.prems"(1)
  have "lexes_as (x @ sep @ join sep (y # ys)) (t @ [Comma] @ commas (u # us))"
    by (intro lexes_as_append)
  with t(1) show ?case by simp
qed

lemma lexes_as_separator: "lexes_as (ascii '','' @ newline_indent n) [Comma]"
  using lexes_as_append[OF lexes_as_punct(5) lexes_as_newline_indent[of n]] by simp

lemma lexes_as_SerializeJSONArray:
  assumes "list_all2 lexes_as parts tparts"
  shows "lexes_as (SerializeJSONArray lvl parts) (LBracket # commas tparts @ [RBracket])"
proof (cases "parts = []")
  case True
  with assms show ?thesis
    by (simp add: SerializeJSONArray_def lexes_as_punct)
next
  case False
  have "lexes_as (ascii ''['' @ newline_indent (lvl + 1) @
           join (ascii '','' @ newline_indent (lvl + 1)) parts @
           newline_indent lvl @ ascii '']'')
         ([LBracket] @ [] @ commas tparts @ [] @ [RBracket])"
    by (intro lexes_as_append lexes_as_punct lexes_as_newline_indent lexes_as_join
        lexes_as_separator assms)
  with False show ?thesis
    by (simp add: SerializeJSONArray_def)
qed

lemma lexes_as_member:
  "lexes_as v tv \<Longrightarrow> lexes_as (QuoteJSONString k @ ascii '': '' @ v) (TString k # Colon # tv)"
  using lexes_as_append[OF lexes_as_QuoteJSONString[of k]
      lexes_as_append[OF lexes_as_punct(6), of v tv]]
  by simp

lemma lexes_as_SerializeJSONObject:
  assumes "list_all2 (\<lambda>(k, v) (k', tv). k' = k \<and> lexes_as v tv) members tmembers"
  shows "lexes_as (SerializeJSONObject lvl members)
           (LBrace # commas (map (\<lambda>(k, tv). TString k # Colon # tv) tmembers) @ [RBrace])"
proof -
  let ?parts = "map (\<lambda>(k, v). QuoteJSONString k @ ascii '': '' @ v) members"
  let ?tparts = "map (\<lambda>(k, tv). TString k # Colon # tv) tmembers"
  have p: "list_all2 lexes_as ?parts ?tparts"
    using assms by (induction rule: list_all2_induct) (auto simp: lexes_as_member)
  show ?thesis
  proof (cases "members = []")
    case True
    with assms show ?thesis
      by (simp add: SerializeJSONObject_def lexes_as_punct)
  next
    case False
    have "lexes_as (ascii ''{'' @ newline_indent (lvl + 1) @
             join (ascii '','' @ newline_indent (lvl + 1)) ?parts @
             newline_indent lvl @ ascii ''}'')
           ([LBrace] @ [] @ commas ?tparts @ [] @ [RBrace])"
      by (intro lexes_as_append lexes_as_punct lexes_as_newline_indent lexes_as_join
          lexes_as_separator p)
    with False show ?thesis
      by (simp add: SerializeJSONObject_def)
  qed
qed

lemma lexes_as_card: "lexes_as (stringify_card lvl c) (toks (json_of_card c))"
proof -
  have "list_all2 (\<lambda>(k, v) (k', tv). k' = k \<and> lexes_as v tv)
          [(ascii ''id'', QuoteJSONString (card_id c)),
           (ascii ''title'', QuoteJSONString (card_title c))]
          [(ascii ''id'', [TString (card_id c)]), (ascii ''title'', [TString (card_title c)])]"
    by (simp add: lexes_as_QuoteJSONString)
  from lexes_as_SerializeJSONObject[OF this, of lvl] show ?thesis
    by (simp add: stringify_card_def json_of_card_def)
qed

lemma lexes_as_cards:
  "list_all2 lexes_as (map (stringify_card lvl) cs) (map toks (map json_of_card cs))"
  by (induction cs) (simp_all add: lexes_as_card)

lemma lexes_as_column: "lexes_as (stringify_column lvl c) (toks (json_of_column c))"
proof -
  have "list_all2 (\<lambda>(k, v) (k', tv). k' = k \<and> lexes_as v tv)
          [(ascii ''id'', QuoteJSONString (column_id c)),
           (ascii ''title'', QuoteJSONString (column_title c)),
           (ascii ''cards'', SerializeJSONArray (lvl + 1) (map (stringify_card (lvl + 2)) (cards c)))]
          [(ascii ''id'', [TString (column_id c)]), (ascii ''title'', [TString (column_title c)]),
           (ascii ''cards'', toks (JArray (map json_of_card (cards c))))]"
    using lexes_as_SerializeJSONArray[OF lexes_as_cards, of "lvl + 1" "lvl + 2" "cards c"]
    by (simp add: lexes_as_QuoteJSONString)
  from lexes_as_SerializeJSONObject[OF this, of lvl] show ?thesis
    by (simp add: stringify_column_def json_of_column_def)
qed

lemma lexes_as_columns:
  "list_all2 lexes_as (map (stringify_column lvl) cs) (map toks (map json_of_column cs))"
  by (induction cs) (simp_all add: lexes_as_column)

lemma lexes_as_board: "lexes_as (JSON_stringify b) (toks (json_of_board b))"
proof -
  have "list_all2 (\<lambda>(k, v) (k', tv). k' = k \<and> lexes_as v tv)
          [(ascii ''columns'', SerializeJSONArray 1 (map (stringify_column 2) (columns b)))]
          [(ascii ''columns'', toks (JArray (map json_of_column (columns b))))]"
    using lexes_as_SerializeJSONArray[OF lexes_as_columns, of 1 2 "columns b"]
    by simp
  from lexes_as_SerializeJSONObject[OF this, of 0] show ?thesis
    by (simp add: JSON_stringify_def json_of_board_def)
qed

lemma lex_JSON_stringify: "lex (JSON_stringify b) = Some (toks (json_of_board b))"
  using lexes_as_board[of b, unfolded lexes_as_def, rule_format, of "[]"]
  by (simp add: lex.simps)

subsection \<open>Values from the tokens\<close>

lemma after_value_array_element:
  "after_value v (ArrF es # st) ts = run (ArrF (v # es) # st) CommaOrClose ts"
  by (simp add: after_value_def)

lemma after_value_member:
  "after_value v (ObjF ms (Some k) # st) ts = run (ObjF ((k, v) # ms) None # st) CommaOrClose ts"
  by (simp add: after_value_def)

lemma run_elements:
  assumes ih: "\<And>v st e ts. v \<in> set vs \<Longrightarrow> e = Value \<or> e = ValueOrClose \<Longrightarrow>
                 run st e (toks v @ ts) = after_value v st ts"
  shows "vs \<noteq> [] \<Longrightarrow> e = Value \<or> e = ValueOrClose \<Longrightarrow>
         run (ArrF es # st) e (commas (map toks vs) @ RBracket # ts) =
           after_value (JArray (rev es @ vs)) st ts"
  using ih
proof (induction vs arbitrary: es e)
  case Nil
  then show ?case by simp
next
  case (Cons v vs)
  have v: "run (ArrF es # st) e (toks v @ r) = run (ArrF (v # es) # st) CommaOrClose r" for r
    using Cons.prems(2) Cons.prems(3)[of v e "ArrF es # st" r]
    by (simp add: after_value_array_element)
  have ih': "\<And>v st e ts. v \<in> set vs \<Longrightarrow> e = Value \<or> e = ValueOrClose \<Longrightarrow>
                 run st e (toks v @ ts) = after_value v st ts"
    using Cons.prems(3) by simp
  show ?case
  proof (cases "vs = []")
    case True
    then show ?thesis
      by (simp add: v close_array_def after_value_def)
  next
    case False
    then obtain w ws where ws: "vs = w # ws" by (cases vs) auto
    have "run (ArrF (v # es) # st) Value (commas (map toks vs) @ RBracket # ts) =
            after_value (JArray (rev (v # es) @ vs)) st ts"
      using False ih' by (intro Cons.IH) auto
    with ws show ?thesis
      using v[of "Comma # commas (map toks (w # ws)) @ RBracket # ts"]
      by simp
  qed
qed

lemma run_members:
  assumes ih: "\<And>k v st e ts. (k, v) \<in> set ms \<Longrightarrow> e = Value \<or> e = ValueOrClose \<Longrightarrow>
                 run st e (toks v @ ts) = after_value v st ts"
  shows "ms \<noteq> [] \<Longrightarrow> e = Key \<or> e = KeyOrClose \<Longrightarrow>
         run (ObjF acc None # st) e
           (commas (map (\<lambda>(k, v). TString k # Colon # toks v) ms) @ RBrace # ts) =
           after_value (JObject (rev acc @ ms)) st ts"
  using ih
proof (induction ms arbitrary: acc e)
  case Nil
  then show ?case by simp
next
  case (Cons m ms)
  obtain k v where m: "m = (k, v)" by (cases m)
  have v: "run (ObjF acc None # st) e (TString k # Colon # toks v @ r) =
             run (ObjF ((k, v) # acc) None # st) CommaOrClose r" for r
    using Cons.prems(2) Cons.prems(3)[of k v Value "ObjF acc (Some k) # st" r] m
    by (auto simp: after_value_member take_key_def)
  have ih': "run st' e' (toks v' @ ts') = after_value v' st' ts'"
    if "(k', v') \<in> set ms" "e' = Value \<or> e' = ValueOrClose" for k' v' st' e' ts'
    using Cons.prems(3)[of k' v' e' st' ts'] that by simp
  show ?case
  proof (cases "ms = []")
    case True
    have "run (ObjF acc None # st) e
            (commas (map (\<lambda>(k, v). TString k # Colon # toks v) (m # ms)) @ RBrace # ts) =
          run (ObjF ((k, v) # acc) None # st) CommaOrClose (RBrace # ts)"
      using True by (simp add: m v del: run.simps)
    with True show ?thesis
      by (simp add: close_object_def after_value_def m)
  next
    case False
    then obtain w ws where ws: "ms = w # ws" by (cases ms) auto
    have "run (ObjF ((k, v) # acc) None # st) Key
            (commas (map (\<lambda>(k, v). TString k # Colon # toks v) ms) @ RBrace # ts) =
            after_value (JObject (rev ((k, v) # acc) @ ms)) st ts"
      using False ih' by (intro Cons.IH) auto
    moreover have "run (ObjF acc None # st) e
            (commas (map (\<lambda>(k, v). TString k # Colon # toks v) (m # ms)) @ RBrace # ts) =
          run (ObjF ((k, v) # acc) None # st) CommaOrClose
            (Comma # commas (map (\<lambda>(k, v). TString k # Colon # toks v) ms) @ RBrace # ts)"
      using ws by (simp add: m v del: run.simps)
    ultimately show ?thesis
      by (simp add: m)
  qed
qed

lemma run_toks:
  "e = Value \<or> e = ValueOrClose \<Longrightarrow> run st e (toks v @ ts) = after_value v st ts"
proof (induction v arbitrary: st e ts rule: toks.induct)
  case 1
  then show ?case by (auto simp: start_value_def after_value_def)
next
  case (2 b)
  then show ?case by (auto simp: start_value_def after_value_def)
next
  case (3 l)
  then show ?case by (auto simp: start_value_def after_value_def)
next
  case (4 s)
  then show ?case by (auto simp: start_value_def after_value_def)
next
  case (5 vs)
  have open_array: "run st e (LBracket # r) = run (ArrF [] # st) ValueOrClose r" for r
    using "5.prems" by (auto simp: start_value_def)
  show ?case
  proof (cases "vs = []")
    case True
    then have "run st e (toks (JArray vs) @ ts) = run (ArrF [] # st) ValueOrClose (RBracket # ts)"
      by (simp add: open_array del: run.simps)
    with True show ?thesis
      by (simp add: close_array_def after_value_def)
  next
    case False
    have "run st e (toks (JArray vs) @ ts) =
          run (ArrF [] # st) ValueOrClose (commas (map toks vs) @ RBracket # ts)"
      by (simp add: open_array del: run.simps)
    with run_elements[of vs ValueOrClose "[]" st ts, OF "5.IH" False]
    show ?thesis by simp
  qed
next
  case (6 ms)
  have open_object: "run st e (LBrace # r) = run (ObjF [] None # st) KeyOrClose r" for r
    using "6.prems" by (auto simp: start_value_def)
  have ih: "\<And>k v st e ts. (k, v) \<in> set ms \<Longrightarrow> e = Value \<or> e = ValueOrClose \<Longrightarrow>
                 run st e (toks v @ ts) = after_value v st ts"
    using "6.IH" by blast
  show ?case
  proof (cases "ms = []")
    case True
    then have "run st e (toks (JObject ms) @ ts) = run (ObjF [] None # st) KeyOrClose (RBrace # ts)"
      by (simp add: open_object del: run.simps)
    with True show ?thesis
      by (simp add: close_object_def after_value_def)
  next
    case False
    have "run st e (toks (JObject ms) @ ts) =
          run (ObjF [] None # st) KeyOrClose
            (commas (map (\<lambda>(k, v). TString k # Colon # toks v) ms) @ RBrace # ts)"
      by (simp add: open_object del: run.simps)
    with run_members[of ms KeyOrClose "[]" st ts, OF ih False]
    show ?thesis by simp
  qed
qed

lemma run_toks_top: "run [] Value (toks v) = Some v"
  using run_toks[of Value "[]" v "[]"] by (simp add: after_value_def)

lemma JSON_parse_stringify: "JSON_parse (JSON_stringify b) = Some (json_of_board b)"
  by (simp add: JSON_parse_def lex_JSON_stringify run_toks_top)

lemma card_of_json_of_card: "card_of_json (json_of_card c) = Some c"
  by (simp add: json_of_card_def)

lemma those_map_Some: "(\<And>x. x \<in> set xs \<Longrightarrow> f (g x) = Some x) \<Longrightarrow> those (map (f \<circ> g) xs) = Some xs"
  by (induction xs) simp_all

lemma column_of_json_of_column: "column_of_json (json_of_column c) = Some c"
  by (simp add: json_of_column_def those_map_Some card_of_json_of_card)

lemma board_of_json_of_board: "board_of_json (json_of_board b) = Some b"
  by (simp add: json_of_board_def those_map_Some column_of_json_of_column)

section \<open>The handler on documents\<close>

text \<open>On a document that holds a serialized board the handler runs the branches on
  that board.\<close>

lemma onDidReceiveMessage_board:
  "onDidReceiveMessage h msg (JSON_stringify b) =
     (case dispatch h msg b of
        (data', dirty, refresh) \<Rightarrow>
          Completed (if dirty then Some (length (JSON_stringify b), JSON_stringify data') else None)
            refresh)"
proof -
  have "(case msg of Update d \<Rightarrow> Some d | _ \<Rightarrow> board_of_json (json_of_board b)) =
        Some (case msg of Update d \<Rightarrow> d | _ \<Rightarrow> b)"
    by (cases msg) (simp_all add: board_of_json_of_board)
  moreover have "dispatch h msg (case msg of Update d \<Rightarrow> d | _ \<Rightarrow> b) = dispatch h msg b"
    by (cases msg) (simp_all add: dispatch_def)
  ultimately show ?thesis
    by (simp add: onDidReceiveMessage_def JSON_parse_stringify)
qed

text \<open>With a column id that does not resolve, the handler builds no edit: nothing is
  written and the document stays as it is.\<close>

lemma handler_unresolved_column:
  assumes "find_js (\<lambda>c. column_id c = columnId) (columns b) = None"
      and "msg \<in> {DeleteColumn columnId, RenameColumn columnId newTitle, AddCard columnId,
                   DeleteCard columnId cardId, MoveColumn columnId toId, MoveColumn fromId columnId}"
  shows "onDidReceiveMessage h msg (JSON_stringify b) = Completed None False"
    and "document_after (onDidReceiveMessage h msg (JSON_stringify b)) (JSON_stringify b)
           = JSON_stringify b"
  using assms(2) dispatch_unresolved_column[OF assms(1), of h]
  by (auto simp: onDidReceiveMessage_board document_after_def edit_of_def)

lemma JSON_stringify_inj: "JSON_stringify a = JSON_stringify b \<Longrightarrow> a = b"
proof -
  assume "JSON_stringify a = JSON_stringify b"
  then have "JSON_parse (JSON_stringify a) = JSON_parse (JSON_stringify b)" by simp
  then have "board_of_json (json_of_board a) = board_of_json (json_of_board b)"
    by (simp add: JSON_parse_stringify)
  then show ?thesis by (simp add: board_of_json_of_board)
qed

text \<open>An \<open>update\<close> message on a document that parses replaces the whole document by
  the serialized board of the message.\<close>

lemma update_replaces_document:
  "JSON_parse text = Some v \<Longrightarrow>
     document_after (onDidReceiveMessage h (Update b) text) text = JSON_stringify b"
  by (simp add: onDidReceiveMessage_def dispatch_def document_after_def edit_of_def applyEdit_def)

subsection \<open>Claim C3: serializing and reparsing\<close>

text \<open>
  Claim C3. For every board, the text that \<^verbatim>\<open>JSON.stringify(data, null, 2)\<close> writes
  for it parses, the parsed value is the JSON value of the board, and read as a board
  this value is the board itself: the same columns and cards in the same order with the
  same ids and titles.
\<close>

theorem serialize_parse_roundtrip:
  "JSON_parse (JSON_stringify b) = Some (json_of_board b) \<and>
   board_of_json (json_of_board b) = Some b"
  by (simp add: JSON_parse_stringify board_of_json_of_board)

subsection \<open>Claim C8: a document that does not parse\<close>

text \<open>
  Claim C8. When the document text does not parse, the handler returns on its
  \<open>ParseError\<close> path for every message, with no edit, so the document is left as it
  is; and \<open>sendData\<close> on that text posts nothing, so the board held by the webview
  stays what it was.
\<close>

theorem parse_failure_is_noop:
  "JSON_parse text = None \<Longrightarrow>
     onDidReceiveMessage h msg text = ParseError \<and>
     edit_of (onDidReceiveMessage h msg text) = None \<and>
     document_after (onDidReceiveMessage h msg text) text = text \<and>
     sendData text state = state"
  by (simp add: onDidReceiveMessage_def document_after_def edit_of_def sendData_def)

text \<open>The text \<open>{\<close> and a \<open>delete-column\<close> message, with the scenario board held by
  the webview.\<close>

theorem parse_failure_is_noop_witness:
  "JSON_parse (ascii ''{'') = None \<and>
   onDidReceiveMessage example_host (DeleteColumn (ascii ''a'')) (ascii ''{'') = ParseError \<and>
   document_after (onDidReceiveMessage example_host (DeleteColumn (ascii ''a'')) (ascii ''{''))
     (ascii ''{'') = ascii ''{'' \<and>
   sendData (ascii ''{'') (Some (json_of_board scenario_board)) = Some (json_of_board scenario_board)"
proof -
  have p: "JSON_parse (ascii ''{'') = None"
    by (simp add: JSON_parse_def ascii_def lex.simps start_value_def)
  from parse_failure_is_noop[OF p, of example_host "DeleteColumn (ascii ''a'')"
      "Some (json_of_board scenario_board)"] p
  show ?thesis by auto
qed

subsection \<open>Claim C9: a prompt that is pending while the document changes\<close>

lemma same_length: "length (JSON_stringify renamed_board) = length (JSON_stringify scenario_board)"
  by (simp add: JSON_stringify_def stringify_column_def stringify_card_def SerializeJSONObject_def
      SerializeJSONArray_def QuoteJSONString_def newline_indent_def ascii_def
      scenario_board_def renamed_board_def card_c1_def card_c2_def
      is_leading_surrogate_def is_trailing_surrogate_def)


lemma rename_then_document:
  "document_after (onDidReceiveMessage example_host (RenameColumn (ascii ''a'') (ascii ''Z''))
      (JSON_stringify scenario_board)) (JSON_stringify scenario_board) = JSON_stringify renamed_board"
  by (simp add: onDidReceiveMessage_board document_after_def edit_of_def applyEdit_def dispatch_def find_js_def
      scenario_board_def renamed_board_def ascii_def)

lemma add_column_example:
  "dispatch example_host AddColumn b = (b\<lparr>columns := columns b @ [fix_column]\<rparr>, True, True)"
  by (simp add: dispatch_def example_host_def fix_column_def ascii_lower_def replace_non_alnum_def
      ascii_def toString.simps)

text \<open>
  Claim C9 says that a mutation that waited for the prompt is applied to the board of
  the time the prompt resolves. The handler reads and parses the document when the
  message arrives, before it awaits the prompt, and writes that parsed board back. Here
  \<open>add-column\<close> arrives while the document holds the scenario board; while the prompt is
  open a \<open>rename-column\<close> message renames column \<open>a\<close> to \<open>Z\<close> in the document; the
  prompt then answers \<open>Fix\<close>. The document written is the scenario board with the new
  column, in which column \<open>a\<close> is titled \<open>A\<close> again, and not the renamed board with the
  new column, which handling the message on the current document would give.
\<close>

theorem pending_add_column_overwrites_interleaved_rename:
  "document_after (onDidReceiveMessage example_host (RenameColumn (ascii ''a'') (ascii ''Z''))
      (JSON_stringify scenario_board)) (JSON_stringify scenario_board) = JSON_stringify renamed_board \<and>
   document_after (onDidReceiveMessage example_host AddColumn (JSON_stringify scenario_board))
      (JSON_stringify renamed_board) =
     JSON_stringify (scenario_board\<lparr>columns := columns scenario_board @ [fix_column]\<rparr>) \<and>
   document_after (onDidReceiveMessage example_host AddColumn (JSON_stringify renamed_board))
      (JSON_stringify renamed_board) =
     JSON_stringify (renamed_board\<lparr>columns := columns renamed_board @ [fix_column]\<rparr>) \<and>
   JSON_stringify (scenario_board\<lparr>columns := columns scenario_board @ [fix_column]\<rparr>) \<noteq>
     JSON_stringify (renamed_board\<lparr>columns := columns renamed_board @ [fix_column]\<rparr>)"
proof -
  have ne: "scenario_board\<lparr>columns := columns scenario_board @ [fix_column]\<rparr> \<noteq>
            renamed_board\<lparr>columns := columns renamed_board @ [fix_column]\<rparr>"
    by (simp add: scenario_board_def renamed_board_def ascii_def)
  have a: "document_after (onDidReceiveMessage example_host AddColumn (JSON_stringify scenario_board))
      (JSON_stringify renamed_board) =
     JSON_stringify (scenario_board\<lparr>columns := columns scenario_board @ [fix_column]\<rparr>)"
    by (simp add: onDidReceiveMessage_board add_column_example document_after_def edit_of_def applyEdit_def
        same_length)
  have b: "document_after (onDidReceiveMessage example_host AddColumn (JSON_stringify renamed_board))
      (JSON_stringify renamed_board) =
     JSON_stringify (renamed_board\<lparr>columns := columns renamed_board @ [fix_column]\<rparr>)"
    by (simp add: onDidReceiveMessage_board add_column_example document_after_def edit_of_def applyEdit_def)
  from ne JSON_stringify_inj have "JSON_stringify (scenario_board\<lparr>columns := columns scenario_board @ [fix_column]\<rparr>) \<noteq>
     JSON_stringify (renamed_board\<lparr>columns := columns renamed_board @ [fix_column]\<rparr>)"
    by blast
  with a b rename_then_document show ?thesis by simp
qed

end
